theory Spec2Isabelle
  imports Main "HOL-Library.Word" "HOL-Library.Sublist" "HOL-Library.Monad_Syntax"
begin

unbundle bit_operations_syntax

section \<open>netnet: the airodump-ng dump parser and its snapshot\<close>

text \<open>
  The development follows the Go program with access-point support (the variant that
  declares \<^verbatim>\<open>apsFound\<close>): \<^verbatim>\<open>filterByLastSeen\<close>, \<^verbatim>\<open>getData\<close>, \<^verbatim>\<open>isLocalMAC\<close>,
  \<^verbatim>\<open>parseAirodumpCsv\<close>, \<^verbatim>\<open>getAPData\<close> and \<^verbatim>\<open>getClientsData\<close>.  Go strings are byte
  sequences, so a string is a \<^typ>\<open>char list\<close> and every length and slice counts bytes.
  A run-time panic is a value: every function that can panic returns \<open>panic + 'a\<close>.
  Output written with \<^verbatim>\<open>fmt.Println\<close> (the diagnostics of \<^verbatim>\<open>check\<close>) is not part of any
  result and is left out; \<^verbatim>\<open>check\<close> does nothing else.
\<close>

datatype panic = IndexOutOfRange | SliceOutOfRange

subsection \<open>Package strings\<close>

text \<open>\<^verbatim>\<open>strings.Index\<close>: the byte offset of the first occurrence of \<open>sep\<close>.\<close>

fun Index :: "string \<Rightarrow> string \<Rightarrow> nat option" where
  "Index [] sep = (if sep = [] then Some 0 else None)"
| "Index (c # cs) sep =
     (if prefix sep (c # cs) then Some 0 else map_option Suc (Index cs sep))"

text \<open>
  \<^verbatim>\<open>strings.Split\<close>: the pieces between successive occurrences of the separator, found
  left to right.  The program's only call passes the fixed header line.  With an empty
  separator Go splits after each UTF-8 sequence; that branch, which the program never
  takes, is written for ASCII text, one byte a piece.
\<close>

function Split :: "string \<Rightarrow> string \<Rightarrow> string list" where
  "Split s sep =
     (if sep = [] then map (\<lambda>c. [c]) s
      else case Index s sep of
             None \<Rightarrow> [s]
           | Some i \<Rightarrow> take i s # Split (drop (i + length sep) s) sep)"
  by pat_completeness auto

lemma Index_Some_le: "Index s sep = Some i \<Longrightarrow> i + length sep \<le> length s"
proof (induction s arbitrary: i)
  case Nil
  then show ?case by (simp split: if_splits)
next
  case (Cons c cs)
  show ?case
  proof (cases "prefix sep (c # cs)")
    case True
    then have "length sep \<le> length (c # cs)" by (rule prefix_length_le)
    with True Cons.prems show ?thesis by simp
  next
    case False
    with Cons.prems obtain j where "Index cs sep = Some j" "i = Suc j" by auto
    with Cons.IH show ?thesis by fastforce
  qed
qed

termination Split
proof (relation "measure (\<lambda>(s, sep). length s)")
  show "wf (measure (\<lambda>(s, sep). length s))" by simp
next
  fix s sep :: string and i
  assume "sep \<noteq> []" "Index s sep = Some i"
  then have "i + length sep \<le> length s" "0 < length sep"
    by (simp_all add: Index_Some_le)
  then have "length s - (i + length sep) < length s"
    by arith
  then show "((drop (i + length sep) s, sep), (s, sep)) \<in> measure (\<lambda>(s, sep). length s)"
    by simp
qed

declare Split.simps [simp del]

text \<open>
  \<^verbatim>\<open>strings.ReplaceAll\<close> where the old and the new text are one byte each, as in
  \<^verbatim>\<open>strings.ReplaceAll(record[0], ":", "-")\<close>.
\<close>

definition ReplaceAll :: "string \<Rightarrow> char \<Rightarrow> char \<Rightarrow> string" where
  "ReplaceAll s old new = map (\<lambda>c. if c = old then new else c) s"

text \<open>
  \<^verbatim>\<open>unicode.IsSpace\<close>, on the UTF-8 bytes: the encodings of the white-space runes
  (tab, LF, VT, FF, CR, space, U+0085, U+00A0, U+1680, U+2000..U+200A, U+2028, U+2029,
  U+202F, U+205F, U+3000).
\<close>

definition space_runes :: "string list" where
  "space_runes =
     [[CHR 0x09], [CHR 0x0A], [CHR 0x0B], [CHR 0x0C], [CHR 0x0D], [CHR 0x20],
      [CHR 0xC2, CHR 0x85], [CHR 0xC2, CHR 0xA0],
      [CHR 0xE1, CHR 0x9A, CHR 0x80],
      [CHR 0xE2, CHR 0x80, CHR 0x80], [CHR 0xE2, CHR 0x80, CHR 0x81],
      [CHR 0xE2, CHR 0x80, CHR 0x82], [CHR 0xE2, CHR 0x80, CHR 0x83],
      [CHR 0xE2, CHR 0x80, CHR 0x84], [CHR 0xE2, CHR 0x80, CHR 0x85],
      [CHR 0xE2, CHR 0x80, CHR 0x86], [CHR 0xE2, CHR 0x80, CHR 0x87],
      [CHR 0xE2, CHR 0x80, CHR 0x88], [CHR 0xE2, CHR 0x80, CHR 0x89],
      [CHR 0xE2, CHR 0x80, CHR 0x8A], [CHR 0xE2, CHR 0x80, CHR 0xA8],
      [CHR 0xE2, CHR 0x80, CHR 0xA9], [CHR 0xE2, CHR 0x80, CHR 0xAF],
      [CHR 0xE2, CHR 0x81, CHR 0x9F], [CHR 0xE3, CHR 0x80, CHR 0x80]]"

text \<open>The number of bytes of the white-space rune a string starts (ends) with, or 0.\<close>

definition leading_space :: "string \<Rightarrow> nat" where
  "leading_space s =
     (case find (\<lambda>p. prefix p s) space_runes of None \<Rightarrow> 0 | Some p \<Rightarrow> length p)"

definition trailing_space :: "string \<Rightarrow> nat" where
  "trailing_space s =
     (case find (\<lambda>p. suffix p s) space_runes of None \<Rightarrow> 0 | Some p \<Rightarrow> length p)"

lemma leading_space_le: "leading_space s \<le> length s"
  by (auto simp: leading_space_def split: option.splits
           dest!: find_Some_iff [THEN iffD1] prefix_length_le)

lemma trailing_space_le: "trailing_space s \<le> length s"
  by (auto simp: trailing_space_def split: option.splits
           dest!: find_Some_iff [THEN iffD1] suffix_length_le)

lemma leading_space_Nil: "leading_space [] = 0"
  using leading_space_le [of "[]"] by simp

lemma trailing_space_Nil: "trailing_space [] = 0"
  using trailing_space_le [of "[]"] by simp

text \<open>\<^verbatim>\<open>TrimLeftFunc(s, unicode.IsSpace)\<close> and \<^verbatim>\<open>TrimRightFunc(s, unicode.IsSpace)\<close>.\<close>

function TrimLeftSpace :: "string \<Rightarrow> string" where
  "TrimLeftSpace s =
     (if leading_space s = 0 then s else TrimLeftSpace (drop (leading_space s) s))"
  by pat_completeness auto
termination
proof (relation "measure length")
  show "wf (measure length)" by simp
next
  fix s :: string
  assume "leading_space s \<noteq> 0"
  then have "s \<noteq> []" using leading_space_Nil by auto
  with \<open>leading_space s \<noteq> 0\<close> show "(drop (leading_space s) s, s) \<in> measure length"
    by simp
qed

declare TrimLeftSpace.simps [simp del]

function TrimRightSpace :: "string \<Rightarrow> string" where
  "TrimRightSpace s =
     (if trailing_space s = 0 then s
      else TrimRightSpace (take (length s - trailing_space s) s))"
  by pat_completeness auto
termination
proof (relation "measure length")
  show "wf (measure length)" by simp
next
  fix s :: string
  assume "trailing_space s \<noteq> 0"
  then have "s \<noteq> []" using trailing_space_Nil by auto
  with \<open>trailing_space s \<noteq> 0\<close>
  show "(take (length s - trailing_space s) s, s) \<in> measure length"
    by simp
qed

declare TrimRightSpace.simps [simp del]

text \<open>\<^verbatim>\<open>strings.TrimSpace\<close>.\<close>

definition TrimSpace :: "string \<Rightarrow> string" where
  "TrimSpace s = TrimRightSpace (TrimLeftSpace s)"

subsection \<open>Package strconv\<close>

datatype NumError = ErrSyntax | ErrRange

text \<open>The value of a digit or letter in \<^verbatim>\<open>ParseUint\<close>, before the comparison with the base.\<close>

definition digit_val :: "char \<Rightarrow> int option" where
  "digit_val c =
     (let n = of_char c :: int in
      if 48 \<le> n \<and> n \<le> 57 then Some (n - 48)
      else if 97 \<le> n \<and> n \<le> 122 then Some (n - 97 + 10)
      else if 65 \<le> n \<and> n \<le> 90 then Some (n - 65 + 10)
      else None)"

text \<open>
  The loop of \<^verbatim>\<open>strconv.ParseUint(s, base, bitSize)\<close> for an explicit base (no
  underscores): \<open>maxVal = 2 ^ bitSize - 1\<close>, and \<open>n\<close> is the value so far, an unsigned
  64-bit number.  The first two tests are those of a multiplication and of an addition
  that would wrap around.
\<close>

fun ParseUint_loop :: "int \<Rightarrow> int \<Rightarrow> int \<Rightarrow> string \<Rightarrow> int \<times> NumError option" where
  "ParseUint_loop base maxVal n [] = (n, None)"
| "ParseUint_loop base maxVal n (c # cs) =
     (case digit_val c of
        None \<Rightarrow> (0, Some ErrSyntax)
      | Some d \<Rightarrow>
          if d \<ge> base then (0, Some ErrSyntax)
          else if n \<ge> (2 ^ 64 - 1) div base + 1 then (maxVal, Some ErrRange)
          else if n * base + d \<ge> 2 ^ 64 \<or> n * base + d > maxVal
            then (maxVal, Some ErrRange)
          else ParseUint_loop base maxVal (n * base + d) cs)"

definition ParseUint :: "string \<Rightarrow> int \<Rightarrow> nat \<Rightarrow> int \<times> NumError option" where
  "ParseUint s base bitSize =
     (if s = [] then (0, Some ErrSyntax)
      else ParseUint_loop base (2 ^ (if bitSize = 0 then 64 else bitSize) - 1) 0 s)"

text \<open>\<^verbatim>\<open>strconv.ParseInt(s, base, bitSize)\<close>: the value and the error, as Go returns both.\<close>

definition ParseInt :: "string \<Rightarrow> int \<Rightarrow> nat \<Rightarrow> int \<times> NumError option" where
  "ParseInt s base bitSize =
     (if s = [] then (0, Some ErrSyntax)
      else
        let neg = (hd s = CHR ''-'');
            s1 = (if hd s = CHR ''+'' \<or> hd s = CHR ''-'' then tl s else s);
            (un, err) = ParseUint s1 base bitSize;
            cutoff = (2 :: int) ^ ((if bitSize = 0 then 64 else bitSize) - 1)
        in if err = Some ErrSyntax then (0, err)
           else if \<not> neg \<and> un \<ge> cutoff then (cutoff - 1, Some ErrRange)
           else if neg \<and> un > cutoff then (- cutoff, Some ErrRange)
           else (if neg then - un else un, None))"

text \<open>
  \<^verbatim>\<open>strconv.Atoi\<close> on a 64-bit platform; its fast path for short strings computes what
  \<^verbatim>\<open>ParseInt(s, 10, 0)\<close> computes.
\<close>

definition Atoi :: "string \<Rightarrow> int \<times> NumError option" where
  "Atoi s = ParseInt s 10 0"

subsection \<open>The classifier\<close>

text \<open>
  \<^verbatim>\<open>isLocalMAC\<close>: \<^verbatim>\<open>MAC[:2]\<close> panics on an address of fewer than two bytes; a parse
  error is printed and \<^verbatim>\<open>first\<close> keeps the value \<^verbatim>\<open>ParseInt\<close> returned with it.
\<close>

definition isLocalMAC :: "string \<Rightarrow> panic + bool" where
  "isLocalMAC MAC =
     (if length MAC < 2 then Inl SliceOutOfRange
      else let (first, err) = ParseInt (take 2 MAC) 16 32
           in Inr ((drop_bit 1 first) AND 1 = 1))"

subsection \<open>The variant without access points\<close>

text \<open>
  \<^verbatim>\<open>isLocalMAC\<close> as \<^verbatim>\<open>src/main.go\<close> has it: a parse error goes to \<^verbatim>\<open>log.Fatal\<close>, which
  prints it and ends the process with \<^verbatim>\<open>os.Exit(1)\<close>.
\<close>

datatype halt = Panicked panic | Exited

definition isLocalMAC_main :: "string \<Rightarrow> halt + bool" where
  "isLocalMAC_main MAC =
     (if length MAC < 2 then Inl (Panicked SliceOutOfRange)
      else let (first, err) = ParseInt (take 2 MAC) 16 32
           in if err \<noteq> None then Inl Exited
              else Inr ((drop_bit 1 first) AND 1 = 1))"

subsection \<open>Package encoding/csv\<close>

text \<open>
  The reader the program configures: comma-separated, \<^verbatim>\<open>FieldsPerRecord = -1\<close> (any
  number of fields), \<^verbatim>\<open>TrimLeadingSpace = true\<close>, no comment character, no lazy quotes.
  The reader's state is the input not yet consumed.
\<close>

datatype CsvError = ErrBareQuote | ErrQuote

definition NL :: char where "NL = CHR 0x0A"
definition CR :: char where "CR = CHR 0x0D"
definition QUOTE :: char where "QUOTE = CHR 0x22"
definition COMMA :: char where "COMMA = CHR 0x2C"

definition lengthNL :: "string \<Rightarrow> nat" where
  "lengthNL b = (if b \<noteq> [] \<and> last b = NL then 1 else 0)"

text \<open>\<^verbatim>\<open>bytes.IndexByte\<close>.\<close>

fun IndexByte :: "string \<Rightarrow> char \<Rightarrow> nat option" where
  "IndexByte [] c = None"
| "IndexByte (x # xs) c = (if x = c then Some 0 else map_option Suc (IndexByte xs c))"

text \<open>
  \<^verbatim>\<open>readLine\<close>: the next line with its line feed, \<^verbatim>\<open>\r\n\<close> normalised to \<^verbatim>\<open>\n\<close>; at the
  end of the input the last line has no line feed and loses a trailing \<^verbatim>\<open>\r\<close>.  The
  result is the line, whether the read reported \<^verbatim>\<open>io.EOF\<close>, and the remaining input.
\<close>

definition readLine :: "string \<Rightarrow> string \<times> bool \<times> string" where
  "readLine inp =
     (case IndexByte inp NL of
        None \<Rightarrow>
          (if inp = [] then ([], True, [])
           else (if last inp = CR then butlast inp else inp, False, []))
      | Some i \<Rightarrow>
          (if 1 \<le> i \<and> inp ! (i - 1) = CR then take (i - 1) inp @ [NL] else take (Suc i) inp,
           False, drop (Suc i) inp))"

text \<open>The start of \<^verbatim>\<open>readRecord\<close>: read a line, skipping past empty lines.\<close>

function nextLine :: "string \<Rightarrow> string \<times> bool \<times> string" where
  "nextLine inp =
     (case readLine inp of
        (line, eof, rest) \<Rightarrow>
          if \<not> eof \<and> length line = lengthNL line then nextLine rest
          else (line, eof, rest))"
  by pat_completeness auto

lemma IndexByte_lt: "IndexByte s c = Some i \<Longrightarrow> i < length s"
  by (induction s arbitrary: i) (auto split: if_splits)

lemma readLine_rest_less:
  "readLine inp = (line, False, rest) \<Longrightarrow> length rest < length inp"
  by (auto simp: readLine_def split: option.splits if_splits dest: IndexByte_lt)

lemma readLine_total_le:
  "readLine inp = (line, eof, rest) \<Longrightarrow> length line + length rest \<le> length inp"
  by (auto simp: readLine_def split: option.splits if_splits dest!: IndexByte_lt)

termination nextLine
  by (relation "measure length") (auto dest: readLine_rest_less [OF sym])

declare nextLine.simps [simp del]

text \<open>
  The inner loop of \<^verbatim>\<open>readRecord\<close> for a quoted field, entered after its opening quote:
  \<open>buf\<close> is the field so far, \<open>line\<close> the rest of the current line.  The field ends at
  \<^verbatim>\<open>",\<close> (more fields follow on the line) or at a quote that ends the line; a quote
  followed by anything else, and the end of the input inside the quotes, are errors.
\<close>

datatype QuotedField =
    QComma string string string
  | QLast string string
  | QError string

function quotedField :: "string \<Rightarrow> string \<Rightarrow> string \<Rightarrow> QuotedField" where
  "quotedField buf line rest =
     (case IndexByte line QUOTE of
        Some i \<Rightarrow>
          (let buf' = buf @ take i line; line' = drop (Suc i) line in
           if line' \<noteq> [] \<and> hd line' = QUOTE then quotedField (buf' @ [QUOTE]) (tl line') rest
           else if line' \<noteq> [] \<and> hd line' = COMMA then QComma buf' (tl line') rest
           else if lengthNL line' = length line' then QLast buf' rest
           else QError rest)
      | None \<Rightarrow>
          (if line \<noteq> [] then
             (case readLine rest of (line2, eof, rest2) \<Rightarrow> quotedField (buf @ line) line2 rest2)
           else QError rest))"
  by pat_completeness auto
termination
  apply (relation "measure (\<lambda>(buf, line, rest). length line + length rest)")
    apply simp
   apply (auto dest!: IndexByte_lt readLine_total_le [OF sym])
  subgoal for line by (cases line) auto
  done

declare quotedField.simps [simp del]

text \<open>
  The field loop of \<^verbatim>\<open>readRecord\<close>: \<open>acc\<close> holds the fields completed so far.  The
  result is the record, the parse error if there was one (the record is then the
  fields read before the error) and the remaining input.
\<close>

function parseFields ::
  "string list \<Rightarrow> string \<Rightarrow> string \<Rightarrow> string list \<times> CsvError option \<times> string" where
  "parseFields acc line0 rest =
     (let line = TrimLeftSpace line0 in
      if line = [] \<or> hd line \<noteq> QUOTE then
        (case IndexByte line COMMA of
           Some i \<Rightarrow>
             (if QUOTE \<in> set (take i line) then (acc, Some ErrBareQuote, rest)
              else parseFields (acc @ [take i line]) (drop (Suc i) line) rest)
         | None \<Rightarrow>
             (let field = take (length line - lengthNL line) line in
              if QUOTE \<in> set field then (acc, Some ErrBareQuote, rest)
              else (acc @ [field], None, rest)))
      else
        (case quotedField [] (tl line) rest of
           QComma field line' rest' \<Rightarrow> parseFields (acc @ [field]) line' rest'
         | QLast field rest' \<Rightarrow> (acc @ [field], None, rest')
         | QError rest' \<Rightarrow> (acc, Some ErrQuote, rest')))"
  by pat_completeness auto

lemma TrimLeftSpace_length_le: "length (TrimLeftSpace s) \<le> length s"
proof (induction s rule: TrimLeftSpace.induct)
  case (1 s)
  show ?case
  proof (cases "leading_space s = 0")
    case True
    then show ?thesis by (simp add: TrimLeftSpace.simps [of s])
  next
    case False
    with 1 have "length (TrimLeftSpace (drop (leading_space s) s)) \<le> length s"
      by fastforce
    with False show ?thesis by (simp add: TrimLeftSpace.simps [of s])
  qed
qed

lemma quotedField_QComma_le:
  "quotedField buf line rest = QComma field line' rest' \<Longrightarrow>
   length line' + length rest' \<le> length line + length rest"
proof (induction buf line rest rule: quotedField.induct)
  case (1 buf line rest)
  show ?case
  proof (cases "IndexByte line QUOTE")
    case None
    show ?thesis
    proof (cases "line = []")
      case True
      with None have "quotedField buf line rest = QError rest"
        by (subst quotedField.simps) simp
      with "1.prems" show ?thesis by simp
    next
      case False
      obtain line2 eof rest2 where rl: "readLine rest = (line2, eof, rest2)"
        by (cases "readLine rest") auto
      with None False "1.prems" have "quotedField (buf @ line) line2 rest2 = QComma field line' rest'"
        by (simp add: quotedField.simps [of buf line rest])
      with "1.IH"(1) [OF None False rl [symmetric] refl]
      have "length line' + length rest' \<le> length line2 + length rest2" by simp
      also have "\<dots> \<le> length rest" using rl by (rule readLine_total_le)
      finally show ?thesis by simp
    qed
  next
    case (Some i)
    define l' where "l' = drop (Suc i) line"
    have len: "length l' < length line"
      using Some by (auto simp: l'_def dest: IndexByte_lt)
    show ?thesis
    proof (cases "l' \<noteq> [] \<and> hd l' = QUOTE")
      case True
      with Some "1.prems"
      have "quotedField ((buf @ take i line) @ [QUOTE]) (tl l') rest = QComma field line' rest'"
        by (simp add: quotedField.simps [of buf line rest] l'_def Let_def)
      with "1.IH"(2) [OF Some refl l'_def True]
      have "length line' + length rest' \<le> length (tl l') + length rest" by simp
      with len show ?thesis by simp
    next
      case False
      with Some "1.prems" have "line' = tl l'" "rest' = rest"
        by (auto simp: quotedField.simps [of buf line rest] l'_def Let_def split: if_splits)
      with len show ?thesis by simp
    qed
  qed
qed

lemma quotedField_QComma_less:
  assumes "quotedField buf (tl line) rest = QComma field line' rest'" and "line \<noteq> []"
  shows "length line' + length rest' < length line + length rest"
proof -
  from assms(1) have "length line' + length rest' \<le> length (tl line) + length rest"
    by (rule quotedField_QComma_le)
  with assms(2) show ?thesis by (cases line) auto
qed

termination parseFields
  apply (relation "measure (\<lambda>(acc, line, rest). length line + length rest)")
    apply simp
  subgoal for acc line0
    using TrimLeftSpace_length_le [of line0] by (auto dest!: IndexByte_lt)
  subgoal for acc line0 rest line field line' rest'
    using TrimLeftSpace_length_le [of line0]
      quotedField_QComma_less [of "[]" line rest field line' rest']
    by auto
  done

declare parseFields.simps [simp del]

text \<open>
  \<^verbatim>\<open>Read\<close>: \<open>None\<close> is \<^verbatim>\<open>io.EOF\<close>; otherwise the record, the parse error if any, and
  the reader's new state.
\<close>

definition Read :: "string \<Rightarrow> ((string list \<times> CsvError option) \<times> string) option" where
  "Read inp =
     (case nextLine inp of
        (line, eof, rest) \<Rightarrow>
          if eof then None
          else (case parseFields [] line rest of
                  (record, err, rest') \<Rightarrow> Some ((record, err), rest')))"

lemma nextLine_rest_less:
  "nextLine inp = (line, False, rest) \<Longrightarrow> length rest < length inp"
proof (induction inp rule: nextLine.induct)
  case (1 inp)
  obtain l e r where rl: "readLine inp = (l, e, r)"
    by (cases "readLine inp") auto
  show ?case
  proof (cases "\<not> e \<and> length l = lengthNL l")
    case True
    with rl "1.prems" have "nextLine r = (line, False, rest)"
      by (simp add: nextLine.simps [of inp])
    with "1.IH" [OF rl [symmetric] refl True] have "length rest < length r"
      by simp
    moreover from rl True have "length r < length inp"
      by (simp add: readLine_rest_less)
    ultimately show ?thesis by simp
  next
    case False
    with rl "1.prems" have "readLine inp = (line, False, rest)"
      by (auto simp: nextLine.simps [of inp])
    then show ?thesis by (rule readLine_rest_less)
  qed
qed

lemma quotedField_rest_le:
  "quotedField buf line rest = q \<Longrightarrow>
   length (case q of QComma f l r \<Rightarrow> r | QLast f r \<Rightarrow> r | QError r \<Rightarrow> r) \<le> length rest"
proof (induction buf line rest rule: quotedField.induct)
  case (1 buf line rest)
  show ?case
  proof (cases "IndexByte line QUOTE")
    case None
    show ?thesis
    proof (cases "line = []")
      case True
      with None have "quotedField buf line rest = QError rest"
        by (subst quotedField.simps) simp
      with "1.prems" show ?thesis by auto
    next
      case False
      obtain line2 eof rest2 where rl: "readLine rest = (line2, eof, rest2)"
        by (cases "readLine rest") auto
      with None False "1.prems" have "quotedField (buf @ line) line2 rest2 = q"
        by (simp add: quotedField.simps [of buf line rest])
      with "1.IH"(1) [OF None False rl [symmetric] refl]
      have "length (case q of QComma f l r \<Rightarrow> r | QLast f r \<Rightarrow> r | QError r \<Rightarrow> r)
              \<le> length rest2" by simp
      also have "\<dots> \<le> length rest" using readLine_total_le [OF rl] by simp
      finally show ?thesis .
    qed
  next
    case (Some i)
    define l' where "l' = drop (Suc i) line"
    show ?thesis
    proof (cases "l' \<noteq> [] \<and> hd l' = QUOTE")
      case True
      with Some "1.prems"
      have "quotedField ((buf @ take i line) @ [QUOTE]) (tl l') rest = q"
        by (simp add: quotedField.simps [of buf line rest] l'_def Let_def)
      with "1.IH"(2) [OF Some refl l'_def True] show ?thesis by simp
    next
      case False
      with Some "1.prems" show ?thesis
        by (auto simp: quotedField.simps [of buf line rest] l'_def Let_def split: if_splits)
    qed
  qed
qed

lemma parseFields_rest_le:
  "parseFields acc line rest = (record, err, rest') \<Longrightarrow> length rest' \<le> length rest"
proof (induction acc line rest rule: parseFields.induct)
  case (1 acc line0 rest)
  define line where "line = TrimLeftSpace line0"
  show ?case
  proof (cases "line = [] \<or> hd line \<noteq> QUOTE")
    case unq: True
    show ?thesis
    proof (cases "IndexByte line COMMA")
      case None
      with unq "1.prems" show ?thesis
        by (auto simp: parseFields.simps [of acc line0 rest] line_def [symmetric] Let_def
            split: if_splits)
    next
      case (Some i)
      show ?thesis
      proof (cases "QUOTE \<in> set (take i line)")
        case True
        with unq Some "1.prems" show ?thesis
          by (auto simp: parseFields.simps [of acc line0 rest] line_def [symmetric] Let_def)
      next
        case False
        with unq Some "1.prems"
        have "parseFields (acc @ [take i line]) (drop (Suc i) line) rest = (record, err, rest')"
          by (auto simp: parseFields.simps [of acc line0 rest] line_def [symmetric] Let_def)
        with "1.IH"(1) [OF line_def unq Some False] show ?thesis by simp
      qed
    qed
  next
    case q: False
    show ?thesis
    proof (cases "quotedField [] (tl line) rest")
      case (QComma f l r)
      with q "1.prems" have "parseFields (acc @ [f]) l r = (record, err, rest')"
        by (auto simp: parseFields.simps [of acc line0 rest] line_def [symmetric] Let_def)
      with "1.IH"(2) [OF line_def q QComma] have "length rest' \<le> length r" by simp
      moreover from quotedField_rest_le [OF QComma] have "length r \<le> length rest" by simp
      ultimately show ?thesis by simp
    next
      case (QLast f r)
      with q "1.prems" have "rest' = r"
        by (auto simp: parseFields.simps [of acc line0 rest] line_def [symmetric] Let_def)
      with quotedField_rest_le [OF QLast] show ?thesis by simp
    next
      case (QError r)
      with q "1.prems" have "rest' = r"
        by (auto simp: parseFields.simps [of acc line0 rest] line_def [symmetric] Let_def)
      with quotedField_rest_le [OF QError] show ?thesis by simp
    qed
  qed
qed

lemma Read_rest_less: "Read inp = Some (r, rest) \<Longrightarrow> length rest < length inp"
proof -
  assume a: "Read inp = Some (r, rest)"
  obtain line eof rest0 where nl: "nextLine inp = (line, eof, rest0)"
    by (cases "nextLine inp") auto
  with a have ne: "\<not> eof" by (auto simp: Read_def split: if_splits)
  obtain fields err rest1 where pf: "parseFields [] line rest0 = (fields, err, rest1)"
    by (cases "parseFields [] line rest0") auto
  with a nl ne have "rest = rest1" by (simp add: Read_def)
  moreover from pf have "length rest1 \<le> length rest0" by (rule parseFields_rest_le)
  moreover from nl ne have "length rest0 < length inp" by (simp add: nextLine_rest_less)
  ultimately show ?thesis by simp
qed

text \<open>
  The results of the successive calls of \<^verbatim>\<open>Read\<close> up to \<^verbatim>\<open>io.EOF\<close>: what a loop
  \<^verbatim>\<open>for { record, err := r.Read(); if err == io.EOF { break }; ... }\<close> iterates over.
\<close>

function ReadRecords :: "string \<Rightarrow> (string list \<times> CsvError option) list" where
  "ReadRecords inp =
     (case Read inp of
        None \<Rightarrow> []
      | Some (r, rest) \<Rightarrow> r # ReadRecords rest)"
  by pat_completeness auto
termination
  by (relation "measure length") (auto dest: Read_rest_less)

declare ReadRecords.simps [simp del]

subsection \<open>Package time\<close>

text \<open>
  A \<^verbatim>\<open>time.Time\<close> is an instant: here the number of nanoseconds since
  0001-01-01 00:00:00 UTC, so that the zero value \<^verbatim>\<open>Time{}\<close> is \<open>0\<close>.  A
  \<^verbatim>\<open>time.Duration\<close> is a signed 64-bit count of nanoseconds whose arithmetic wraps around.
  A \<^verbatim>\<open>*time.Location\<close> is the offset from UTC, in seconds, that the zone gives to a
  wall-clock reading (in seconds since 0001-01-01 00:00:00).  \<^verbatim>\<open>Time.Add\<close> and
  \<^verbatim>\<open>Time.Before\<close> are exact on instants: the range of \<^verbatim>\<open>time.Time\<close>, some hundred
  billion years, is not modelled.
\<close>

type_synonym Time = int
type_synonym Duration = "64 word"
type_synonym Location = "int \<Rightarrow> int"

text \<open>\<^verbatim>\<open>time.UTC\<close>: no offset at any reading.\<close>

definition UTC :: Location where
  "UTC = (\<lambda>wall. 0)"

definition Minute :: Duration where
  "Minute = 60000000000"

definition Add :: "Time \<Rightarrow> Duration \<Rightarrow> Time" where
  "Add t d = t + sint d"

definition Before :: "Time \<Rightarrow> Time \<Rightarrow> bool" where
  "Before t u = (t < u)"

definition isDigit :: "string \<Rightarrow> nat \<Rightarrow> bool" where
  "isDigit s i = (i < length s \<and> 48 \<le> (of_char (s ! i) :: nat) \<and> (of_char (s ! i) :: nat) \<le> 57)"

definition digit :: "char \<Rightarrow> int" where
  "digit c = int (of_char c) - 48"

text \<open>\<^verbatim>\<open>getnum\<close>: one or two decimal digits (\<open>fixed\<close> forces two) and the rest.\<close>

definition getnum :: "string \<Rightarrow> bool \<Rightarrow> (int \<times> string) option" where
  "getnum s fixed =
     (if \<not> isDigit s 0 then None
      else if \<not> isDigit s 1 then (if fixed then None else Some (digit (s ! 0), drop 1 s))
      else Some (digit (s ! 0) * 10 + digit (s ! 1), drop 2 s))"

text \<open>
  \<^verbatim>\<open>skip\<close> for a one-byte literal prefix of the layout, and for the layout's space,
  which stands for any run of spaces in the value.
\<close>

definition skipByte :: "char \<Rightarrow> string \<Rightarrow> string option" where
  "skipByte c v = (case v of [] \<Rightarrow> None | x # xs \<Rightarrow> if x = c then Some xs else None)"

definition skipSpace :: "string \<Rightarrow> string option" where
  "skipSpace v =
     (if v \<noteq> [] \<and> hd v \<noteq> CHR '' '' then None
      else Some (dropWhile (\<lambda>c. c = CHR '' '') v))"

text \<open>The four digits of the layout element \<^verbatim>\<open>2006\<close>.\<close>

definition longYear :: "string \<Rightarrow> (int \<times> string) option" where
  "longYear v =
     (if length v < 4 \<or> \<not> (isDigit v 0 \<and> isDigit v 1 \<and> isDigit v 2 \<and> isDigit v 3) then None
      else Some (digit (v ! 0) * 1000 + digit (v ! 1) * 100 + digit (v ! 2) * 10 + digit (v ! 3),
                 drop 4 v))"

text \<open>
  A fractional second in the value where the layout has none: a period or a comma and
  digits, of which \<^verbatim>\<open>parseNanoseconds\<close> reads at most nine.
\<close>

definition fracSecond :: "string \<Rightarrow> int \<times> string" where
  "fracSecond v =
     (if 2 \<le> length v \<and> (v ! 0 = CHR ''.'' \<or> v ! 0 = CHR '','') \<and> isDigit v 1 then
        (let ds = takeWhile (\<lambda>c. isDigit [c] 0) (tl v);
             used = take 9 ds
         in (foldl (\<lambda>n c. n * 10 + digit c) 0 used * 10 ^ (9 - length used),
             drop (Suc (length ds)) v))
      else (0, v))"

definition isLeap :: "int \<Rightarrow> bool" where
  "isLeap year = (year mod 4 = 0 \<and> (year mod 100 \<noteq> 0 \<or> year mod 400 = 0))"

definition daysBefore :: "int list" where
  "daysBefore = [0, 31, 59, 90, 120, 151, 181, 212, 243, 273, 304, 334, 365]"

definition daysIn :: "int \<Rightarrow> int \<Rightarrow> int" where
  "daysIn m year =
     (if m = 2 \<and> isLeap year then 29
      else daysBefore ! nat m - daysBefore ! nat (m - 1))"

text \<open>
  \<^verbatim>\<open>time.Date\<close> for a month in 1..12, a day of that month and a time of day in range:
  the wall-clock second, moved to UTC by the zone's offset.
\<close>

definition Date :: "int \<Rightarrow> int \<Rightarrow> int \<Rightarrow> int \<Rightarrow> int \<Rightarrow> int \<Rightarrow> int \<Rightarrow> Location \<Rightarrow> Time" where
  "Date year month day hour minute sec nsec loc =
     (let y = year - 1;
          days = 365 * y + y div 4 - y div 100 + y div 400
                 + daysBefore ! nat (month - 1)
                 + (if isLeap year \<and> 3 \<le> month then 1 else 0)
                 + (day - 1);
          wall = days * 86400 + hour * 3600 + minute * 60 + sec
      in (wall - loc wall) * 1000000000 + nsec)"

text \<open>
  \<^verbatim>\<open>time.ParseInLocation("2006-01-02 15:04:05", value, loc)\<close>: four digits of year,
  two of month, two of day, one or two of hour, two of minute and of second, an optional
  fractional second, and nothing after it.  \<open>None\<close> is a parse error.
\<close>

definition guard :: "bool \<Rightarrow> unit option" where
  "guard b = (if b then Some () else None)"

definition parseLayout :: "string \<Rightarrow> Location \<Rightarrow> Time option" where
  "parseLayout v0 loc = do {
     (year, v1) \<leftarrow> longYear v0;
     v2 \<leftarrow> skipByte (CHR ''-'') v1;
     (month, v3) \<leftarrow> getnum v2 True;
     _ \<leftarrow> guard (0 < month \<and> month \<le> 12);
     v4 \<leftarrow> skipByte (CHR ''-'') v3;
     (day, v5) \<leftarrow> getnum v4 True;
     v6 \<leftarrow> skipSpace v5;
     (hour, v7) \<leftarrow> getnum v6 False;
     _ \<leftarrow> guard (hour < 24);
     v8 \<leftarrow> skipByte (CHR '':'') v7;
     (minute, v9) \<leftarrow> getnum v8 True;
     _ \<leftarrow> guard (minute < 60);
     v10 \<leftarrow> skipByte (CHR '':'') v9;
     (sec, v11) \<leftarrow> getnum v10 True;
     _ \<leftarrow> guard (sec < 60);
     (nsec, v12) \<leftarrow> Some (fracSecond v11);
     _ \<leftarrow> guard (v12 = []);
     _ \<leftarrow> guard (1 \<le> day \<and> day \<le> daysIn month year);
     Some (Date year month day hour minute sec nsec loc)
   }"

text \<open>The two results Go returns: on an error the time is the zero \<^verbatim>\<open>Time{}\<close>.\<close>

definition ParseInLocation :: "string \<Rightarrow> Location \<Rightarrow> Time \<times> bool" where
  "ParseInLocation v loc =
     (case parseLayout v loc of None \<Rightarrow> (0, True) | Some t \<Rightarrow> (t, False))"

subsection \<open>The records\<close>

record AccessPoint =
  MAC :: string
  FirstSeen :: Time
  LastSeen :: Time
  Channel :: int
  Speed :: string
  Privacy :: string
  Authentication :: string
  Power :: int
  Name :: string

record Client =
  MAC :: string
  FirstSeen :: Time
  LastSeen :: Time
  Power :: int
  Packets :: int
  BSSID :: string
  Probes :: string
  Organization :: string

text \<open>
  The globals \<^verbatim>\<open>ouidb\<close> and \<^verbatim>\<open>ciddb\<close>: a Go map from string to string, where a key
  that is absent (or any key of a nil map) reads as the empty string.
\<close>

type_synonym registry = "string \<rightharpoonup> string"

definition lookup :: "registry \<Rightarrow> string \<Rightarrow> string" where
  "lookup db k = (case db k of None \<Rightarrow> [] | Some v \<Rightarrow> v)"

text \<open>The slice expression \<^verbatim>\<open>s[:n]\<close>, which panics when \<open>n\<close> exceeds the length.\<close>

definition slice_to :: "string \<Rightarrow> nat \<Rightarrow> panic + string" where
  "slice_to s n = (if length s < n then Inl SliceOutOfRange else Inr (take n s))"

subsection \<open>The program\<close>

text \<open>
  \<^verbatim>\<open>getAPData\<close>.  The body of its loop for one result of \<^verbatim>\<open>Read\<close> that is not
  \<^verbatim>\<open>io.EOF\<close>, once \<open>i \<noteq> 0\<close>: \<open>None\<close> is the \<^verbatim>\<open>continue\<close> of a row with fewer than 14
  columns.  The error of \<^verbatim>\<open>Read\<close> and the errors of the four conversions are only
  printed; the values returned with them are used.
\<close>

definition apOfRecord :: "Location \<Rightarrow> string list \<Rightarrow> AccessPoint option" where
  "apOfRecord local record =
     (if length record < 14 then None
      else
        let (firstSeen, err1) = ParseInLocation (TrimSpace (record ! 1)) local;
            (lastSeen, err2) = ParseInLocation (TrimSpace (record ! 2)) local;
            (channel, err3) = Atoi (TrimSpace (record ! 3));
            (power, err4) = Atoi (TrimSpace (record ! 8))
        in Some \<lparr> AccessPoint.MAC = ReplaceAll (record ! 0) (CHR '':'') (CHR ''-''),
                   AccessPoint.FirstSeen = firstSeen,
                   AccessPoint.LastSeen = lastSeen,
                   Channel = channel,
                   Speed = record ! 4,
                   Privacy = record ! 5,
                   Authentication = record ! 7,
                   AccessPoint.Power = power,
                   Name = record ! 13 \<rparr>)"

text \<open>
  The loop, over the results of \<^verbatim>\<open>Read\<close>: \<open>i\<close> counts the iterations that reached
  \<^verbatim>\<open>i++\<close>, which the \<^verbatim>\<open>continue\<close> of a short row skips.
\<close>

fun getAPData_loop ::
  "Location \<Rightarrow> nat \<Rightarrow> (string list \<times> CsvError option) list \<Rightarrow> AccessPoint list" where
  "getAPData_loop local i [] = []"
| "getAPData_loop local i ((record, err) # rs) =
     (if i \<noteq> 0 then
        (case apOfRecord local record of
           None \<Rightarrow> getAPData_loop local i rs
         | Some ap \<Rightarrow> ap # getAPData_loop local (i + 1) rs)
      else getAPData_loop local (i + 1) rs)"

definition getAPData :: "Location \<Rightarrow> string \<Rightarrow> AccessPoint list" where
  "getAPData local data = getAPData_loop local 0 (ReadRecords data)"

text \<open>
  \<^verbatim>\<open>getClientsData\<close>.  The body of its loop: \<open>Inr None\<close> is the \<^verbatim>\<open>continue\<close> of a row
  with fewer than 7 columns, \<open>Inl\<close> a panic of \<^verbatim>\<open>MAC[:2]\<close> (in \<^verbatim>\<open>isLocalMAC\<close>) or of
  \<^verbatim>\<open>c.MAC[:8]\<close>.
\<close>

definition clientOfRecord ::
  "Location \<Rightarrow> registry \<Rightarrow> registry \<Rightarrow> string list \<Rightarrow> panic + Client option" where
  "clientOfRecord local ouidb ciddb record =
     (if length record < 7 then Inr None
      else
        let (firstSeen, err1) = ParseInLocation (TrimSpace (record ! 1)) local;
            (lastSeen, err2) = ParseInLocation (TrimSpace (record ! 2)) local;
            (power, err3) = Atoi (TrimSpace (record ! 3));
            (packets, err4) = Atoi (TrimSpace (record ! 4));
            c = \<lparr> MAC = ReplaceAll (record ! 0) (CHR '':'') (CHR ''-''),
                  FirstSeen = firstSeen,
                  LastSeen = lastSeen,
                  Power = power,
                  Packets = packets,
                  BSSID = record ! 5,
                  Probes = record ! 6,
                  Organization = [] \<rparr>
        in case isLocalMAC (MAC c) of
             Inl p \<Rightarrow> Inl p
           | Inr True \<Rightarrow>
               (case slice_to (MAC c) 8 of
                  Inl p \<Rightarrow> Inl p
                | Inr key \<Rightarrow>
                    (let cid = TrimSpace (lookup ciddb key)
                     in if cid \<noteq> [] then Inr (Some (c\<lparr>Organization := cid\<rparr>))
                        else Inr (Some (c\<lparr>Organization := ''LOCAL''\<rparr>))))
           | Inr False \<Rightarrow>
               (case slice_to (MAC c) 8 of
                  Inl p \<Rightarrow> Inl p
                | Inr key \<Rightarrow>
                    (let oui = TrimSpace (lookup ouidb key)
                     in Inr (Some (c\<lparr>Organization := oui\<rparr>)))))"

fun getClientsData_loop ::
  "Location \<Rightarrow> registry \<Rightarrow> registry \<Rightarrow> (string list \<times> CsvError option) list
   \<Rightarrow> panic + Client list" where
  "getClientsData_loop local ouidb ciddb [] = Inr []"
| "getClientsData_loop local ouidb ciddb ((record, err) # rs) =
     (case clientOfRecord local ouidb ciddb record of
        Inl p \<Rightarrow> Inl p
      | Inr None \<Rightarrow> getClientsData_loop local ouidb ciddb rs
      | Inr (Some c) \<Rightarrow>
          (case getClientsData_loop local ouidb ciddb rs of
             Inl p \<Rightarrow> Inl p
           | Inr clients \<Rightarrow> Inr (c # clients)))"

definition getClientsData ::
  "Location \<Rightarrow> registry \<Rightarrow> registry \<Rightarrow> string \<Rightarrow> panic + Client list" where
  "getClientsData local ouidb ciddb data =
     getClientsData_loop local ouidb ciddb (ReadRecords data)"

text \<open>The header line of the client section, at which the dump is split.\<close>

definition marker :: string where
  "marker = ''Station MAC, First time seen, Last time seen, Power, # packets, BSSID, Probed ESSIDs''"

text \<open>
  \<^verbatim>\<open>parseAirodumpCsv\<close>.  The argument is what \<^verbatim>\<open>ioutil.ReadFile\<close> returned: \<open>None\<close> for
  an error, otherwise the content.  \<^verbatim>\<open>csvdata[1]\<close> panics when the split gave one piece.
\<close>

definition parseAirodumpCsv ::
  "Location \<Rightarrow> registry \<Rightarrow> registry \<Rightarrow> string option
   \<Rightarrow> panic + (AccessPoint list \<times> Client list)" where
  "parseAirodumpCsv local ouidb ciddb file =
     (case file of
        None \<Rightarrow> Inr ([], [])
      | Some s \<Rightarrow>
          let csvdata = Split s marker;
              accessPoints = getAPData local (csvdata ! 0)
          in if length csvdata < 2 then Inl IndexOutOfRange
             else (case getClientsData local ouidb ciddb (csvdata ! 1) of
                     Inl p \<Rightarrow> Inl p
                   | Inr clients \<Rightarrow> Inr (accessPoints, clients)))"

text \<open>The two globals that hold the published lists.\<close>

record Snapshot =
  apsFound :: "AccessPoint list"
  clientsFound :: "Client list"

text \<open>
  One iteration of the loop of \<^verbatim>\<open>getData\<close>: the assignment
  \<^verbatim>\<open>apsFound, clientsFound = parseAirodumpCsv(*csvFile)\<close>.  A panic in the goroutine ends
  the process, so there is no snapshot after it.
\<close>

definition getData_cycle ::
  "Location \<Rightarrow> registry \<Rightarrow> registry \<Rightarrow> Snapshot \<Rightarrow> string option \<Rightarrow> panic + Snapshot" where
  "getData_cycle local ouidb ciddb snap file =
     (case parseAirodumpCsv local ouidb ciddb file of
        Inl p \<Rightarrow> Inl p
      | Inr (aps, clients) \<Rightarrow> Inr (snap\<lparr>apsFound := aps, clientsFound := clients\<rparr>))"

text \<open>
  The loop of \<^verbatim>\<open>getData\<close> never ends by itself; its first iterations are given by what
  \<^verbatim>\<open>ReadFile\<close> returned in each.
\<close>

fun getData ::
  "Location \<Rightarrow> registry \<Rightarrow> registry \<Rightarrow> Snapshot \<Rightarrow> string option list \<Rightarrow> panic + Snapshot" where
  "getData local ouidb ciddb snap [] = Inr snap"
| "getData local ouidb ciddb snap (file # files) =
     (case getData_cycle local ouidb ciddb snap file of
        Inl p \<Rightarrow> Inl p
      | Inr snap' \<Rightarrow> getData local ouidb ciddb snap' files)"

text \<open>
  \<^verbatim>\<open>filterByLastSeen\<close>.  \<^verbatim>\<open>time.Now()\<close> is read in every iteration: \<open>now k\<close> is the
  reading in iteration \<open>k\<close>.  \<open>mins\<close> is a Go \<^verbatim>\<open>int\<close> (64 bits), converted to a
  \<^verbatim>\<open>Duration\<close> and multiplied there.
\<close>

fun filterByLastSeen_loop :: "(nat \<Rightarrow> Time) \<Rightarrow> nat \<Rightarrow> Client list \<Rightarrow> int \<Rightarrow> Client list" where
  "filterByLastSeen_loop now k [] mins = []"
| "filterByLastSeen_loop now k (client # clients) mins =
     (let t = Add (now k) (- 1 * word_of_int mins * Minute)
      in if Before t (LastSeen client)
         then client # filterByLastSeen_loop now (Suc k) clients mins
         else filterByLastSeen_loop now (Suc k) clients mins)"

definition filterByLastSeen :: "(nat \<Rightarrow> Time) \<Rightarrow> Client list \<Rightarrow> int \<Rightarrow> Client list" where
  "filterByLastSeen now clients mins = filterByLastSeen_loop now 0 clients mins"

subsection \<open>The text of a dump\<close>

text \<open>
  The dump file seen from the side of its text, as airodump-ng writes it; the program
  uses none of these definitions.  A row is a list of fields, written on one line with
  commas between the fields (a field may begin with the blanks that airodump-ng writes
  after a comma); the row with no field is an empty line.  Every line ends with
  \<^verbatim>\<open>\r\n\<close>.
\<close>

fun joinFields :: "string list \<Rightarrow> string" where
  "joinFields [] = []"
| "joinFields [f] = f"
| "joinFields (f # g # fs) = f @ COMMA # joinFields (g # fs)"

definition csvLines :: "string list list \<Rightarrow> string" where
  "csvLines rows = concat (map (\<lambda>fs. joinFields fs @ [CR, NL]) rows)"

text \<open>A field without a comma, a double quote or a line feed inside it.\<close>

definition plainField :: "string \<Rightarrow> bool" where
  "plainField f \<longleftrightarrow> COMMA \<notin> set f \<and> QUOTE \<notin> set f \<and> NL \<notin> set f"

definition plainRows :: "string list list \<Rightarrow> bool" where
  "plainRows rows \<longleftrightarrow> (\<forall>fs \<in> set rows. \<forall>f \<in> set fs. plainField f)"

text \<open>The rows whose line is not empty.\<close>

definition nonBlank :: "string list list \<Rightarrow> string list list" where
  "nonBlank rows = filter (\<lambda>fs. joinFields fs \<noteq> []) rows"

text \<open>
  A dump: the lines of the access-point section (its header row among them), the header
  line of the client section, and the lines of the client section.
\<close>

definition dumpText :: "string list list \<Rightarrow> string list list \<Rightarrow> string" where
  "dumpText aprows clrows = csvLines aprows @ marker @ [CR, NL] @ csvLines clrows"

subsection \<open>Sample inputs\<close>

text \<open>
  Two client rows as airodump-ng writes them: the first address has the U/L bit set, the
  second has not.
\<close>

definition sample_clients :: string where
  "sample_clients =
     ''02:00:00:00:00:01, 2024-01-01 10:00:00, 2024-01-01 10:05:00, -40, 12, (not associated), '' @ [CR, NL] @
     ''00:1A:2B:00:00:01, 2024-01-01 10:00:00, 2024-01-01 10:05:00, -60, 3, (not associated), '' @ [CR, NL]"

definition sample_local_client :: Client where
  "sample_local_client =
     \<lparr> MAC = ''02-00-00-00-00-01'', FirstSeen = 63839700000000000000,
       LastSeen = 63839700300000000000, Power = - 40, Packets = 12,
       BSSID = ''(not associated)'', Probes = [], Organization = ''LOCAL'' \<rparr>"

definition sample_global_client :: Client where
  "sample_global_client =
     \<lparr> MAC = ''00-1A-2B-00-00-01'', FirstSeen = 63839700000000000000,
       LastSeen = 63839700300000000000, Power = - 60, Packets = 3,
       BSSID = ''(not associated)'', Probes = [], Organization = [] \<rparr>"

text \<open>A clock that gives the same reading in every iteration.\<close>

definition fixedClock :: "Time \<Rightarrow> nat \<Rightarrow> Time" where
  "fixedClock t k = t"

text \<open>Two clients last seen 60 minutes, and one second less, before the instant below.\<close>

definition sample_now :: Time where
  "sample_now = 63839703900000000000"

definition client_at_boundary :: Client where
  "client_at_boundary = sample_local_client \<lparr> LastSeen := 63839700300000000000 \<rparr>"

definition client_inside :: Client where
  "client_inside = sample_local_client \<lparr> LastSeen := 63839700301000000000 \<rparr>"

text \<open>What a row of the client section contributes when nothing panics.\<close>

definition clientResult :: "panic + Client option \<Rightarrow> Client option" where
  "clientResult x = (case x of Inl p \<Rightarrow> None | Inr oc \<Rightarrow> oc)"

text \<open>
  The value of a character that is a hexadecimal digit: the digits \<^verbatim>\<open>0\<close> to \<^verbatim>\<open>9\<close> are
  the bytes 48 to 57, the letters \<^verbatim>\<open>a\<close> to \<^verbatim>\<open>f\<close> the bytes 97 to 102 and the letters
  \<^verbatim>\<open>A\<close> to \<^verbatim>\<open>F\<close> the bytes 65 to 70.
\<close>

definition hexDigit :: "char \<Rightarrow> int option" where
  "hexDigit c =
     (let n = of_char c :: int in
      if 48 \<le> n \<and> n \<le> 57 then Some (n - 48)
      else if 97 \<le> n \<and> n \<le> 102 then Some (n - 87)
      else if 65 \<le> n \<and> n \<le> 70 then Some (n - 55)
      else None)"

text \<open>
  A dump with the header row of the access-point section, one access-point row of 14
  columns, the header line of the client section and one client row.
\<close>

definition ap_header :: string where
  "ap_header = ''BSSID, First time seen, Last time seen, channel, Speed, Privacy, Cipher, Authentication, Power, # beacons, # IV, LAN IP, ID-length, ESSID, Key''"

definition scenario_ap_row :: string where
  "scenario_ap_row = ''00:11:22:33:44:55, 2024-01-01 09:00:00, 2024-01-01 10:05:00, 6, 54, WPA2, CCMP, PSK, -55, 10, 0, 0.0.0.0, 4, home''"

definition scenario_client_row :: string where
  "scenario_client_row = ''AA:BB:CC:DD:EE:FF, 2024-01-01 10:00:00, 2024-01-01 10:05:00, -40, 12, (not associated), ''"

definition scenario_dump :: string where
  "scenario_dump =
     ap_header @ [CR, NL] @ scenario_ap_row @ [CR, NL] @ marker @ [CR, NL] @
     scenario_client_row @ [CR, NL]"

definition scenario_ap :: AccessPoint where
  "scenario_ap =
     \<lparr> AccessPoint.MAC = ''00-11-22-33-44-55'',
       AccessPoint.FirstSeen = 63839696400000000000,
       AccessPoint.LastSeen = 63839700300000000000,
       Channel = 6, Speed = ''54'', Privacy = ''WPA2'', Authentication = ''PSK'',
       AccessPoint.Power = - 55, Name = ''home'' \<rparr>"

definition scenario_client :: Client where
  "scenario_client =
     \<lparr> MAC = ''AA-BB-CC-DD-EE-FF'', FirstSeen = 63839700000000000000,
       LastSeen = 63839700300000000000, Power = - 40, Packets = 12,
       BSSID = ''(not associated)'', Probes = [], Organization = ''LOCAL'' \<rparr>"

text \<open>The same dump without the header line of the client section.\<close>

definition no_marker_dump :: string where
  "no_marker_dump = ap_header @ [CR, NL] @ scenario_ap_row @ [CR, NL]"

text \<open>The client that a row gives whose address starts with \<^verbatim>\<open>ZZ\<close>.\<close>

definition unparsable_address_client :: Client where
  "unparsable_address_client =
     \<lparr> MAC = ''ZZ-BB-CC-DD-EE-FF'', FirstSeen = 63839700000000000000,
       LastSeen = 63839700300000000000, Power = - 40, Packets = 12,
       BSSID = ''(not associated)'', Probes = [], Organization = [] \<rparr>"

text \<open>A dump whose only client row has a two-byte address.\<close>

definition short_address_dump :: string where
  "short_address_dump =
     marker @ [CR, NL] @
     ''ab, 2024-01-01 10:00:00, 2024-01-01 10:05:00, -40, 12, (not associated), '' @ [CR, NL]"

text \<open>
  The fields of the two data rows of the scenario dump, as the reader delivers them.
\<close>

definition scenario_ap_fields :: "string list" where
  "scenario_ap_fields =
     [''00:11:22:33:44:55'', ''2024-01-01 09:00:00'', ''2024-01-01 10:05:00'', ''6'', ''54'',
      ''WPA2'', ''CCMP'', ''PSK'', ''-55'', ''10'', ''0'', ''0.0.0.0'', ''4'', ''home'']"

definition scenario_client_fields :: "string list" where
  "scenario_client_fields =
     [''AA:BB:CC:DD:EE:FF'', ''2024-01-01 10:00:00'', ''2024-01-01 10:05:00'', ''-40'', ''12'',
      ''(not associated)'', []]"

text \<open>The fields of a client row whose address does not start with hexadecimal digits.\<close>

definition unparsable_address_fields :: "string list" where
  "unparsable_address_fields =
     [''ZZ:BB:CC:DD:EE:FF'', ''2024-01-01 10:00:00'', ''2024-01-01 10:05:00'', ''-40'', ''12'',
      ''(not associated)'', []]"

text \<open>
  The rows of a dump with three access points and three clients, with the blanks and
  the empty lines that airodump-ng writes: an empty line before the header row of the
  access-point section and one at the end of each section.
\<close>

definition ap_header_fields :: "string list" where
  "ap_header_fields =
     [''BSSID'', '' First time seen'', '' Last time seen'', '' channel'', '' Speed'',
      '' Privacy'', '' Cipher'', '' Authentication'', '' Power'', '' # beacons'', '' # IV'',
      '' LAN IP'', '' ID-length'', '' ESSID'', '' Key'']"

definition home_ap_fields :: "string list" where
  "home_ap_fields =
     [''00:11:22:33:44:55'', '' 2024-01-01 09:00:00'', '' 2024-01-01 10:05:00'', ''  6'',
      ''  54'', '' WPA2'', '' CCMP'', '' PSK'', '' -55'', ''       10'', ''        0'',
      ''   0.  0.  0.  0'', ''   4'', '' home'', '' '']"

definition dump_ap_rows :: "string list list" where
  "dump_ap_rows =
     [[],
      ap_header_fields,
      home_ap_fields,
      [''66:77:88:99:AA:BB'', '' 2024-01-01 09:10:00'', '' 2024-01-01 10:04:00'', '' 11'',
       ''  54'', '' WPA2'', '' CCMP'', '' PSK'', '' -70'', ''        7'', ''        0'',
       ''   0.  0.  0.  0'', ''   4'', '' cafe'', '' ''],
      [''CC:DD:EE:FF:00:11'', '' 2024-01-01 09:20:00'', '' 2024-01-01 10:03:00'', ''  1'',
       ''  54'', '' OPN'', '' '', ''   '', '' -80'', ''        3'', ''        0'',
       ''   0.  0.  0.  0'', ''   3'', '' lab'', '' ''],
      []]"

definition dump_client_rows :: "string list list" where
  "dump_client_rows =
     [[''AA:BB:CC:DD:EE:FF'', '' 2024-01-01 10:00:00'', '' 2024-01-01 10:05:00'', '' -40'',
       ''       12'', '' (not associated) '', '' ''],
      [''02:00:00:00:00:01'', '' 2024-01-01 10:01:00'', '' 2024-01-01 10:04:00'', '' -50'',
       ''        5'', '' 00:11:22:33:44:55'', '' home''],
      [''00:1A:2B:00:00:01'', '' 2024-01-01 10:02:00'', '' 2024-01-01 10:03:00'', '' -60'',
       ''        3'', '' 66:77:88:99:AA:BB'', '' cafe''],
      []]"

text \<open>
  A client row whose columns all parse and whose address has seven bytes, and the first
  client row above with its address in lower case.
\<close>

definition short_address_client_rows :: "string list list" where
  "short_address_client_rows =
     [[''AA:BB:C'', '' 2024-01-01 10:00:00'', '' 2024-01-01 10:05:00'', '' -40'',
       ''       12'', '' (not associated) '', '' '']]"

definition lower_case_client_rows :: "string list list" where
  "lower_case_client_rows =
     [[''aa:bb:cc:dd:ee:ff'', '' 2024-01-01 10:00:00'', '' 2024-01-01 10:05:00'', '' -40'',
       ''       12'', '' (not associated) '', '' '']]"

text \<open>
  Rows with fields that do not parse.  In the access-point section the row after the
  header row has a first-seen time and a channel that are not a time and not a number,
  and the last row has three columns.  In the client section the first row has a
  first-seen time and a power that do not parse and the second row has two columns.
  The last definition is the first client row with an address of seven bytes.
\<close>

definition unparsed_ap_rows :: "string list list" where
  "unparsed_ap_rows =
     [ap_header_fields,
      [''00:11:22:33:44:55'', '' garbage'', '' 2024-01-01 10:05:00'', '' x'',
       ''  54'', '' WPA2'', '' CCMP'', '' PSK'', '' -55'', ''       10'', ''        0'',
       ''   0.  0.  0.  0'', ''   4'', '' home'', '' ''],
      [''66:77:88:99:AA:BB'', '' 2024-01-01 09:10:00'', '' 2024-01-01 10:04:00'']]"

definition unparsed_client_rows :: "string list list" where
  "unparsed_client_rows =
     [[''AA:BB:CC:DD:EE:FF'', '' garbage'', '' 2024-01-01 10:05:00'', '' abc'',
       ''       12'', '' (not associated) '', '' ''],
      [''02:00:00:00:00:01'', '' 2024-01-01 10:01:00''],
      [''00:1A:2B:00:00:01'', '' 2024-01-01 10:00:00'', '' 2024-01-01 10:03:00'', '' -60'',
       ''        3'', '' 66:77:88:99:AA:BB'', '' cafe'']]"

definition unparsed_short_rows :: "string list list" where
  "unparsed_short_rows =
     [[''AA:BB:C'', '' garbage'', '' 2024-01-01 10:05:00'', '' abc'',
       ''       12'', '' (not associated) '', '' '']]"

section \<open>Properties\<close>

subsection \<open>Trimming, lookups and slices\<close>

lemma TrimLeftSpace_Nil: "TrimLeftSpace [] = []"
  by (simp add: TrimLeftSpace.simps [of "[]"] leading_space_Nil)

lemma TrimRightSpace_Nil: "TrimRightSpace [] = []"
  by (simp add: TrimRightSpace.simps [of "[]"] trailing_space_Nil)

lemma TrimSpace_Nil: "TrimSpace [] = []"
  by (simp add: TrimSpace_def TrimLeftSpace_Nil TrimRightSpace_Nil)

lemma lookup_None: "db k = None \<Longrightarrow> lookup db k = []"
  by (simp add: lookup_def)

lemma slice_to_Inr: "slice_to s n = Inr k \<Longrightarrow> k = take n s \<and> n \<le> length s"
  by (auto simp: slice_to_def split: if_splits)

subsection \<open>One client row\<close>

lemma clientOfRecord_MAC:
  "clientOfRecord local ouidb ciddb record = Inr (Some c) \<Longrightarrow>
   MAC c = ReplaceAll (record ! 0) (CHR '':'') (CHR ''-'')"
  by (auto simp: clientOfRecord_def Let_def
      split: if_splits prod.splits sum.splits bool.splits)

lemma clientOfRecord_local:
  "clientOfRecord local ouidb ciddb record = Inr (Some c) \<Longrightarrow>
   isLocalMAC (MAC c) = Inr True \<Longrightarrow>
   Organization c =
     (if TrimSpace (lookup ciddb (take 8 (MAC c))) \<noteq> []
      then TrimSpace (lookup ciddb (take 8 (MAC c))) else ''LOCAL'')"
  by (auto simp: clientOfRecord_def Let_def
      split: if_splits prod.splits sum.splits bool.splits dest!: slice_to_Inr)

lemma clientOfRecord_global:
  "clientOfRecord local ouidb ciddb record = Inr (Some c) \<Longrightarrow>
   isLocalMAC (MAC c) = Inr False \<Longrightarrow>
   Organization c = TrimSpace (lookup ouidb (take 8 (MAC c)))"
  by (auto simp: clientOfRecord_def Let_def
      split: if_splits prod.splits sum.splits bool.splits dest!: slice_to_Inr)

text \<open>Every client in the result was built from one of the rows read.\<close>

lemma getClientsData_loop_mem:
  "getClientsData_loop local ouidb ciddb rs = Inr clients \<Longrightarrow> c \<in> set clients \<Longrightarrow>
   \<exists>record err. (record, err) \<in> set rs \<and> clientOfRecord local ouidb ciddb record = Inr (Some c)"
proof (induction rs arbitrary: clients)
  case Nil
  then show ?case by simp
next
  case (Cons r rs)
  obtain row err where r: "r = (row, err)" by (cases r)
  show ?case
  proof (cases "clientOfRecord local ouidb ciddb row")
    case (Inl p)
    with Cons.prems r show ?thesis by simp
  next
    case (Inr oc)
    show ?thesis
    proof (cases oc)
      case None
      with Inr Cons.prems r have "getClientsData_loop local ouidb ciddb rs = Inr clients"
        by simp
      from Cons.IH [OF this Cons.prems(2)] show ?thesis by auto
    next
      case (Some c')
      with Inr Cons.prems r obtain cs where
        cs: "getClientsData_loop local ouidb ciddb rs = Inr cs" "clients = c' # cs"
        by (auto split: sum.splits)
      show ?thesis
      proof (cases "c = c'")
        case True
        with Inr Some r show ?thesis by auto
      next
        case False
        with cs Cons.prems(2) have "c \<in> set cs" by simp
        from Cons.IH [OF cs(1) this] show ?thesis by auto
      qed
    qed
  qed
qed

lemma sample_clients_run:
  "getClientsData UTC Map.empty Map.empty sample_clients
     = Inr [sample_local_client, sample_global_client]"
  by code_simp

subsection \<open>Enrichment\<close>

text \<open>
  Claim C4.  For every client record that \<^verbatim>\<open>getClientsData\<close> returns, the classifier
  decides the enrichment: when \<^verbatim>\<open>isLocalMAC\<close> says the address is locally administered
  and the first 8 bytes of the address have no entry in the CID registry, the
  organization is the string \<^verbatim>\<open>LOCAL\<close>; when it says the address is globally assigned
  and the first 8 bytes have no entry in the OUI registry, the organization is empty.
\<close>

theorem enrichment_by_classifier:
  assumes "getClientsData local ouidb ciddb data = Inr clients" and "c \<in> set clients"
  shows "(isLocalMAC (MAC c) = Inr True \<and> ciddb (take 8 (MAC c)) = None
            \<longrightarrow> Organization c = ''LOCAL'')
       \<and> (isLocalMAC (MAC c) = Inr False \<and> ouidb (take 8 (MAC c)) = None
            \<longrightarrow> Organization c = [])"
proof -
  from assms obtain row err where
    "clientOfRecord local ouidb ciddb row = Inr (Some c)"
    unfolding getClientsData_def by (blast dest: getClientsData_loop_mem)
  then show ?thesis
    by (auto simp: clientOfRecord_local clientOfRecord_global lookup_None TrimSpace_Nil)
qed

theorem enrichment_by_classifier_witness:
  "getClientsData UTC Map.empty Map.empty sample_clients
     = Inr [sample_local_client, sample_global_client]
   \<and> isLocalMAC (MAC sample_local_client) = Inr True
   \<and> Organization sample_local_client = ''LOCAL''
   \<and> isLocalMAC (MAC sample_global_client) = Inr False
   \<and> Organization sample_global_client = []"
proof -
  have loc: "isLocalMAC (MAC sample_local_client) = Inr True"
    and glob: "isLocalMAC (MAC sample_global_client) = Inr False"
    by code_simp+
  have "sample_local_client \<in> set [sample_local_client, sample_global_client]"
    and "sample_global_client \<in> set [sample_local_client, sample_global_client]"
    by simp_all
  then have "Organization sample_local_client = ''LOCAL''"
    and "Organization sample_global_client = []"
    using enrichment_by_classifier [OF sample_clients_run] loc glob by auto
  with sample_clients_run loc glob show ?thesis by simp
qed

subsection \<open>The recency filter\<close>

lemma sint_word_of_int_64:
  "- (2 ^ 63) \<le> k \<Longrightarrow> k < 2 ^ 63 \<Longrightarrow> sint (word_of_int k :: 64 word) = k"
  by (simp add: signed_of_int signed_take_bit_int_eq_self)

text \<open>Up to 153722867 minutes the product fits the 64 bits of a \<^verbatim>\<open>Duration\<close>.\<close>

lemma minutes_duration:
  assumes "0 \<le> mins" and "mins \<le> 153722867"
  shows "sint (- 1 * word_of_int mins * Minute) = - (mins * 60000000000)"
proof -
  have eq: "- 1 * word_of_int mins * Minute = (word_of_int (- (mins * 60000000000)) :: 64 word)"
    by (simp add: Minute_def)
  have lo: "- (2 ^ 63) \<le> - (mins * 60000000000)" and hi: "- (mins * 60000000000) < 2 ^ 63"
    using assms by simp_all
  show ?thesis
    unfolding eq by (rule sint_word_of_int_64 [OF lo hi])
qed

lemma minutes_duration_neg:
  assumes "0 \<le> mins" and "mins \<le> 153722867"
  shows "sint (- (word_of_int mins * Minute)) = - (mins * 60000000000)"
  using minutes_duration [OF assms] by simp

lemma filterByLastSeen_loop_eq:
  assumes "0 \<le> mins" and "mins \<le> 153722867"
  shows "filterByLastSeen_loop now k clients mins =
     map fst (filter (\<lambda>(c, j). now j - mins * 60000000000 < LastSeen c)
               (zip clients [k ..< k + length clients]))"
proof (induction clients arbitrary: k)
  case Nil
  show ?case by simp
next
  case (Cons c cs)
  have up: "[k ..< k + length (c # cs)] = k # [Suc k ..< Suc k + length cs]"
    by (simp add: upt_rec)
  show ?case
    unfolding up
    by (simp add: Let_def Add_def Before_def minutes_duration_neg [OF assms] Cons.IH)
qed

lemma filter_zip_const:
  "map fst (filter (\<lambda>(c, j). P c) (zip xs [k ..< k + length xs])) = filter P xs"
proof (induction xs arbitrary: k)
  case Nil
  show ?case by simp
next
  case (Cons x xs)
  have up: "[k ..< k + length (x # xs)] = k # [Suc k ..< Suc k + length xs]"
    by (simp add: upt_rec)
  show ?case
    unfolding up using Cons.IH [of "Suc k"] by simp
qed

text \<open>
  Claim C6, as the code has it.  For every client list and every \<open>windowMinutes\<close> from 0
  to 153722867 (the largest number of minutes whose nanoseconds fit a 64-bit
  \<^verbatim>\<open>Duration\<close>), \<^verbatim>\<open>filterByLastSeen\<close> keeps, in order, exactly the clients whose
  last-seen time is strictly after the time read when the client is examined minus
  \<open>windowMinutes\<close> minutes.  With one reading \<open>t\<close> for the whole call the result is the
  list filtered by \<open>t - windowMinutes < LastSeen\<close>: a client last seen exactly
  \<open>windowMinutes\<close> before \<open>t\<close> is left out, one seen a second later is kept.
\<close>

theorem filterByLastSeen_window:
  assumes "0 \<le> mins" and "mins \<le> 153722867"
  shows "filterByLastSeen now clients mins =
           map fst (filter (\<lambda>(c, k). now k - mins * 60000000000 < LastSeen c)
                     (zip clients [0 ..< length clients]))
       \<and> filterByLastSeen (fixedClock t) clients mins =
           filter (\<lambda>c. t - mins * 60000000000 < LastSeen c) clients
       \<and> (LastSeen c = t - mins * 60000000000 \<longrightarrow>
            filterByLastSeen (fixedClock t) [c] mins = [])
       \<and> (LastSeen c = t - mins * 60000000000 + 1000000000 \<longrightarrow>
            filterByLastSeen (fixedClock t) [c] mins = [c])"
proof -
  have gen: "filterByLastSeen now' cs mins =
           map fst (filter (\<lambda>(c, k). now' k - mins * 60000000000 < LastSeen c)
                     (zip cs [0 ..< length cs]))" for now' cs
    using filterByLastSeen_loop_eq [OF assms, of now' 0 cs]
    by (simp add: filterByLastSeen_def)
  have fixed: "filterByLastSeen (fixedClock t) cs mins =
           filter (\<lambda>c. t - mins * 60000000000 < LastSeen c) cs" for cs
    using filter_zip_const [of "\<lambda>c. t - mins * 60000000000 < LastSeen c" cs 0]
    by (simp add: gen fixedClock_def)
  show ?thesis
    using gen [of now clients] by (simp add: fixed)
qed

theorem filterByLastSeen_window_witness:
  "(0 :: int) \<le> 60 \<and> (60 :: int) \<le> 153722867
   \<and> LastSeen client_at_boundary = sample_now - 60 * 60000000000
   \<and> LastSeen client_inside = sample_now - 60 * 60000000000 + 1000000000
   \<and> filterByLastSeen (fixedClock sample_now) [client_at_boundary] 60 = []
   \<and> filterByLastSeen (fixedClock sample_now) [client_inside] 60 = [client_inside]
   \<and> filterByLastSeen (fixedClock sample_now) [client_at_boundary, client_inside] 60
        = [client_inside]"
proof -
  have b: "LastSeen client_at_boundary = sample_now - 60 * 60000000000"
    and i: "LastSeen client_inside = sample_now - 60 * 60000000000 + 1000000000"
    by (simp_all add: client_at_boundary_def client_inside_def sample_now_def)
  have r: "(0 :: int) \<le> 60" "(60 :: int) \<le> 153722867" by simp_all
  from filterByLastSeen_window [OF r, of "fixedClock sample_now" "[]" sample_now client_at_boundary] b
  have 1: "filterByLastSeen (fixedClock sample_now) [client_at_boundary] 60 = []"
    by simp
  from filterByLastSeen_window [OF r, of "fixedClock sample_now" "[]" sample_now client_inside] i
  have 2: "filterByLastSeen (fixedClock sample_now) [client_inside] 60 = [client_inside]"
    by simp
  have "filterByLastSeen (fixedClock sample_now) [client_at_boundary, client_inside] 60
        = filter (\<lambda>c. sample_now - 60 * 60000000000 < LastSeen c)
            [client_at_boundary, client_inside]"
    by (rule filterByLastSeen_window [OF r, THEN conjunct2, THEN conjunct1])
  then have 3: "filterByLastSeen (fixedClock sample_now) [client_at_boundary, client_inside] 60
        = [client_inside]"
    by (simp add: b i)
  from b i 1 2 3 show ?thesis by simp
qed

text \<open>
  The claim as written, for every non-negative \<open>windowMinutes\<close>, fails at 153722868
  minutes: the multiplication wraps around to a positive duration, and a client seen at
  the very instant of the call is left out.
\<close>

theorem filterByLastSeen_overflow_counterexample:
  "(0 :: int) \<le> 153722868
   \<and> LastSeen scenario_client = 63839700300000000000
   \<and> 63839700300000000000 - 153722868 * 60000000000 < LastSeen scenario_client
   \<and> filterByLastSeen (fixedClock 63839700300000000000) [scenario_client] 153722868 = []"
  by (simp add: filterByLastSeen_def scenario_client_def Add_def Before_def Minute_def
      fixedClock_def)

subsection \<open>Which rows become records\<close>

lemma apOfRecord_None_iff: "apOfRecord local record = None \<longleftrightarrow> length record < 14"
  by (simp add: apOfRecord_def Let_def split: prod.splits)

lemma apOfRecord_Some_iff: "(\<exists>ap. apOfRecord local record = Some ap) \<longleftrightarrow> 14 \<le> length record"
  using apOfRecord_None_iff [of local "record"] by (cases "apOfRecord local record") auto

lemma apOfRecord_fields:
  "apOfRecord local record = Some ap \<Longrightarrow>
     AccessPoint.MAC ap = ReplaceAll (record ! 0) (CHR '':'') (CHR ''-'')
   \<and> AccessPoint.FirstSeen ap = fst (ParseInLocation (TrimSpace (record ! 1)) local)
   \<and> AccessPoint.LastSeen ap = fst (ParseInLocation (TrimSpace (record ! 2)) local)
   \<and> Channel ap = fst (Atoi (TrimSpace (record ! 3)))
   \<and> AccessPoint.Power ap = fst (Atoi (TrimSpace (record ! 8)))"
  by (auto simp: apOfRecord_def Let_def split: if_splits prod.splits)

text \<open>After its first iteration the loop of \<^verbatim>\<open>getAPData\<close> treats every row alike.\<close>

lemma getAPData_loop_pos:
  "i \<noteq> 0 \<Longrightarrow>
   getAPData_loop local i rs = List.map_filter (\<lambda>(record, err). apOfRecord local record) rs"
proof (induction rs arbitrary: i)
  case Nil
  show ?case by (simp add: List.map_filter_simps)
next
  case (Cons r rs)
  obtain row err where r: "r = (row, err)" by (cases r)
  show ?case
    using Cons.prems Cons.IH [of i] Cons.IH [of "i + 1"]
    by (cases "apOfRecord local row") (simp_all add: r List.map_filter_simps)
qed

lemma getAPData_eq:
  "getAPData local data =
     List.map_filter (\<lambda>(record, err). apOfRecord local record) (tl (ReadRecords data))"
proof (cases "ReadRecords data")
  case Nil
  then show ?thesis by (simp add: getAPData_def List.map_filter_simps)
next
  case (Cons r rs)
  obtain row err where r: "r = (row, err)" by (cases r)
  with Cons show ?thesis
    by (simp add: getAPData_def getAPData_loop_pos)
qed

lemma clientOfRecord_fields:
  "clientOfRecord local ouidb ciddb record = Inr (Some c) \<Longrightarrow>
     FirstSeen c = fst (ParseInLocation (TrimSpace (record ! 1)) local)
   \<and> LastSeen c = fst (ParseInLocation (TrimSpace (record ! 2)) local)
   \<and> Power c = fst (Atoi (TrimSpace (record ! 3)))
   \<and> Packets c = fst (Atoi (TrimSpace (record ! 4)))
   \<and> BSSID c = record ! 5
   \<and> Probes c = record ! 6"
  by (auto simp: clientOfRecord_def Let_def
      split: if_splits prod.splits sum.splits bool.splits)

lemma clientOfRecord_None_iff:
  "clientOfRecord local ouidb ciddb record = Inr None \<longleftrightarrow> length record < 7"
  by (auto simp: clientOfRecord_def Let_def split: prod.splits sum.splits bool.splits)

lemma getClientsData_loop_eq:
  "getClientsData_loop local ouidb ciddb rs = Inr clients \<Longrightarrow>
   clients = List.map_filter
               (\<lambda>(record, err). clientResult (clientOfRecord local ouidb ciddb record)) rs"
proof (induction rs arbitrary: clients)
  case Nil
  then show ?case by (simp add: List.map_filter_simps)
next
  case (Cons r rs)
  obtain row err where r: "r = (row, err)" by (cases r)
  show ?case
  proof (cases "clientOfRecord local ouidb ciddb row")
    case (Inl p)
    with Cons.prems r show ?thesis by simp
  next
    case (Inr oc)
    show ?thesis
    proof (cases oc)
      case None
      with Inr Cons.prems r have "getClientsData_loop local ouidb ciddb rs = Inr clients"
        by simp
      from Cons.IH [OF this] Inr None r show ?thesis
        by (simp add: List.map_filter_simps clientResult_def)
    next
      case (Some c')
      with Inr Cons.prems r obtain cs where
        cs: "getClientsData_loop local ouidb ciddb rs = Inr cs" "clients = c' # cs"
        by (auto split: sum.splits)
      from Cons.IH [OF cs(1)] cs(2) Inr Some r show ?thesis
        by (simp add: List.map_filter_simps clientResult_def)
    qed
  qed
qed

lemma getClientsData_loop_no_panic:
  "\<forall>(record, err) \<in> set rs. \<exists>oc. clientOfRecord local ouidb ciddb record = Inr oc \<Longrightarrow>
   \<exists>clients. getClientsData_loop local ouidb ciddb rs = Inr clients"
proof (induction rs)
  case Nil
  show ?case by simp
next
  case (Cons r rs)
  obtain row err where r: "r = (row, err)" by (cases r)
  from Cons.prems r obtain oc where oc: "clientOfRecord local ouidb ciddb row = Inr oc"
    by auto
  from Cons.prems Cons.IH obtain cs where "getClientsData_loop local ouidb ciddb rs = Inr cs"
    by auto
  with oc r show ?case by (cases oc) simp_all
qed

lemma isLocalMAC_no_panic: "2 \<le> length m \<Longrightarrow> \<exists>b. isLocalMAC m = Inr b"
  by (simp add: isLocalMAC_def split: prod.splits)

lemma clientOfRecord_Some:
  assumes "7 \<le> length record" and "8 \<le> length (record ! 0)"
  shows "\<exists>c. clientOfRecord local ouidb ciddb record = Inr (Some c)"
proof -
  let ?m = "ReplaceAll (record ! 0) (CHR '':'') (CHR ''-'')"
  have len: "length ?m = length (record ! 0)" by (simp add: ReplaceAll_def)
  with assms(2) obtain b where b: "isLocalMAC ?m = Inr b"
    using isLocalMAC_no_panic [of ?m] by auto
  from len assms(2) have s: "slice_to ?m 8 = Inr (take 8 ?m)"
    by (simp add: slice_to_def)
  from assms(1) b s show ?thesis
    by (cases b) (simp_all add: clientOfRecord_def Let_def split: prod.splits)
qed

subsection \<open>Splitting at the header line\<close>

lemma Index_None_iff: "Index s sep = None \<longleftrightarrow> \<not> sublist sep s"
  by (induction s) (auto simp: sublist_Cons_right)

lemma marker_not_Nil: "marker \<noteq> []"
  by (simp add: marker_def)

lemma Split_not_Nil: "sep \<noteq> [] \<Longrightarrow> Split s sep \<noteq> []"
  by (subst Split.simps) (simp split: option.splits)

lemma Split_absent:
  assumes "sep \<noteq> []" and "\<not> sublist sep s"
  shows "Split s sep = [s]"
proof -
  from assms(2) have "Index s sep = None" by (simp add: Index_None_iff)
  with assms(1) show ?thesis by (subst Split.simps) simp
qed

lemma Split_present:
  assumes "sep \<noteq> []" and "sublist sep s"
  shows "2 \<le> length (Split s sep)"
proof -
  from assms(2) obtain i where i: "Index s sep = Some i"
    using Index_None_iff [of s sep] by (cases "Index s sep") auto
  have "Split (drop (i + length sep) s) sep \<noteq> []"
    using assms(1) by (rule Split_not_Nil)
  then have "1 \<le> length (Split (drop (i + length sep) s) sep)"
    by (cases "Split (drop (i + length sep) s) sep") simp_all
  with assms(1) i show ?thesis
    by (subst Split.simps) simp
qed

subsection \<open>Rows that panic\<close>

lemma clientOfRecord_panic_kind:
  "clientOfRecord local ouidb ciddb record = Inl p \<Longrightarrow> p = SliceOutOfRange"
  by (auto simp: clientOfRecord_def Let_def isLocalMAC_def slice_to_def
      split: if_splits prod.splits sum.splits bool.splits)

lemma clientOfRecord_short_address:
  assumes "7 \<le> length record" and "length (record ! 0) < 8"
  shows "clientOfRecord local ouidb ciddb record = Inl SliceOutOfRange"
proof -
  let ?m = "ReplaceAll (record ! 0) (CHR '':'') (CHR ''-'')"
  have len: "length ?m = length (record ! 0)" by (simp add: ReplaceAll_def)
  with assms(2) have s: "slice_to ?m 8 = Inl SliceOutOfRange"
    by (simp add: slice_to_def)
  show ?thesis
  proof (cases "isLocalMAC ?m")
    case (Inl p)
    then have "p = SliceOutOfRange"
      by (auto simp: isLocalMAC_def split: if_splits prod.splits)
    with Inl assms(1) show ?thesis
      by (simp add: clientOfRecord_def Let_def split: prod.splits)
  next
    case (Inr b)
    with assms(1) s show ?thesis
      by (cases b) (simp_all add: clientOfRecord_def Let_def split: prod.splits)
  qed
qed

lemma getClientsData_loop_panics:
  "(record, err) \<in> set rs \<Longrightarrow> clientOfRecord local ouidb ciddb record = Inl p \<Longrightarrow>
   getClientsData_loop local ouidb ciddb rs = Inl SliceOutOfRange"
proof (induction rs)
  case Nil
  then show ?case by simp
next
  case (Cons r rs)
  obtain row e where r: "r = (row, e)" by (cases r)
  show ?case
  proof (cases "clientOfRecord local ouidb ciddb row")
    case (Inl q)
    with clientOfRecord_panic_kind [OF Inl] r show ?thesis by simp
  next
    case (Inr oc)
    with Cons.prems r have "(record, err) \<in> set rs" by auto
    from Cons.IH [OF this Cons.prems(2)] Inr r show ?thesis
      by (cases oc) simp_all
  qed
qed

subsection \<open>White space before a field\<close>

lemma space_runes_facts:
  "p \<in> set space_runes \<Longrightarrow> p \<noteq> [] \<and> COMMA \<notin> set p \<and> NL \<notin> set (tl p)"
  by (auto simp: space_runes_def COMMA_def NL_def)

lemma prefix_before_byte:
  assumes "c \<notin> set p"
  shows "prefix p (f @ c # zs) \<longleftrightarrow> prefix p f"
proof
  assume "prefix p (f @ c # zs)"
  then consider "prefix p f" | us where "p = f @ us" "prefix us (c # zs)"
    by (auto simp: prefix_append)
  then show "prefix p f"
  proof cases
    case 1
    then show ?thesis .
  next
    case 2
    with assms have "us = []" by (cases us) auto
    with 2 show ?thesis by simp
  qed
next
  assume "prefix p f"
  then show "prefix p (f @ c # zs)" by (simp add: prefix_prefix)
qed

lemma leading_space_before_comma:
  "leading_space (f @ COMMA # zs) = leading_space f"
proof -
  have "find (\<lambda>p. prefix p (f @ COMMA # zs)) space_runes = find (\<lambda>p. prefix p f) space_runes"
    by (rule find_cong [OF refl]) (simp add: prefix_before_byte space_runes_facts)
  then show ?thesis by (simp add: leading_space_def)
qed

lemma TrimLeftSpace_before_comma:
  "TrimLeftSpace (f @ COMMA # zs) = TrimLeftSpace f @ COMMA # zs"
proof (induction f rule: TrimLeftSpace.induct)
  case (1 s)
  show ?case
  proof (cases "leading_space s = 0")
    case True
    then show ?thesis
      by (simp add: TrimLeftSpace.simps [of s] TrimLeftSpace.simps [of "s @ COMMA # zs"]
          leading_space_before_comma)
  next
    case False
    have le: "leading_space s \<le> length s" by (rule leading_space_le)
    from False 1 have "TrimLeftSpace (drop (leading_space s) s @ COMMA # zs)
        = TrimLeftSpace (drop (leading_space s) s) @ COMMA # zs" by simp
    with False le show ?thesis
      by (simp add: TrimLeftSpace.simps [of s] TrimLeftSpace.simps [of "s @ COMMA # zs"]
          leading_space_before_comma)
  qed
qed

lemma leading_space_NL: "leading_space [NL] = 1"
  by (simp add: leading_space_def space_runes_def NL_def)

lemma leading_space_before_NL:
  assumes "f \<noteq> []" and "NL \<notin> set f"
  shows "leading_space (f @ [NL]) = leading_space f"
proof -
  have "prefix p (f @ [NL]) \<longleftrightarrow> prefix p f" if p: "p \<in> set space_runes" for p
  proof
    assume "prefix p (f @ [NL])"
    then consider "prefix p f" | "p = f @ [NL]"
      by (auto simp: prefix_append prefix_Cons)
    then show "prefix p f"
    proof cases
      case 1
      then show ?thesis .
    next
      case 2
      with assms(1) have "NL \<in> set (tl p)" by (cases f) auto
      with space_runes_facts [OF p] show ?thesis by simp
    qed
  next
    assume "prefix p f"
    then show "prefix p (f @ [NL])" by (simp add: prefix_prefix)
  qed
  then have "find (\<lambda>p. prefix p (f @ [NL])) space_runes = find (\<lambda>p. prefix p f) space_runes"
    by (intro find_cong [OF refl]) simp
  then show ?thesis by (simp add: leading_space_def)
qed

lemma TrimLeftSpace_before_NL:
  "NL \<notin> set f \<Longrightarrow>
   TrimLeftSpace (f @ [NL]) = (if TrimLeftSpace f = [] then [] else TrimLeftSpace f @ [NL])"
proof (induction f rule: TrimLeftSpace.induct)
  case (1 s)
  show ?case
  proof (cases "s = []")
    case True
    then show ?thesis
      by (simp add: TrimLeftSpace.simps [of "[NL]"] leading_space_NL TrimLeftSpace_Nil)
  next
    case ne: False
    show ?thesis
    proof (cases "leading_space s = 0")
      case True
      with ne "1.prems" show ?thesis
        by (simp add: TrimLeftSpace.simps [of s] TrimLeftSpace.simps [of "s @ [NL]"]
            leading_space_before_NL)
    next
      case False
      have le: "leading_space s \<le> length s" by (rule leading_space_le)
      from "1.prems" have "NL \<notin> set (drop (leading_space s) s)"
        by (auto dest: in_set_dropD)
      with False 1 have "TrimLeftSpace (drop (leading_space s) s @ [NL])
        = (if TrimLeftSpace (drop (leading_space s) s) = [] then []
           else TrimLeftSpace (drop (leading_space s) s) @ [NL])" by simp
      with False le ne "1.prems" show ?thesis
        by (simp add: TrimLeftSpace.simps [of s] TrimLeftSpace.simps [of "s @ [NL]"]
            leading_space_before_NL)
    qed
  qed
qed

lemma TrimLeftSpace_suffix: "suffix (TrimLeftSpace s) s"
proof (induction s rule: TrimLeftSpace.induct)
  case (1 s)
  show ?case
  proof (cases "leading_space s = 0")
    case True
    then show ?thesis by (simp add: TrimLeftSpace.simps [of s])
  next
    case False
    with 1 have "suffix (TrimLeftSpace (drop (leading_space s) s)) (drop (leading_space s) s)"
      by simp
    then have "suffix (TrimLeftSpace (drop (leading_space s) s)) s"
      by (rule suffix_order.trans) (rule suffix_drop)
    with False show ?thesis by (simp add: TrimLeftSpace.simps [of s])
  qed
qed

lemma TrimLeftSpace_set: "set (TrimLeftSpace s) \<subseteq> set s"
  using TrimLeftSpace_suffix [of s] by (rule set_mono_suffix)

lemma TrimLeftSpace_idem: "TrimLeftSpace (TrimLeftSpace s) = TrimLeftSpace s"
proof (induction s rule: TrimLeftSpace.induct)
  case (1 s)
  show ?case
  proof (cases "leading_space s = 0")
    case True
    then show ?thesis by (simp add: TrimLeftSpace.simps [of s])
  next
    case False
    with 1 show ?thesis by (simp add: TrimLeftSpace.simps [of s])
  qed
qed

lemma TrimSpace_TrimLeftSpace: "TrimSpace (TrimLeftSpace s) = TrimSpace s"
  by (simp add: TrimSpace_def TrimLeftSpace_idem)

subsection \<open>Reading the lines of a section\<close>

lemma IndexByte_None_iff: "IndexByte s c = None \<longleftrightarrow> c \<notin> set s"
  by (induction s) auto

lemma IndexByte_first: "c \<notin> set a \<Longrightarrow> IndexByte (a @ c # b) c = Some (length a)"
  by (induction a) auto

lemma readLine_CRLF:
  assumes "NL \<notin> set l"
  shows "readLine (l @ CR # NL # rest) = (l @ [NL], False, rest)"
proof -
  have "NL \<notin> set (l @ [CR])" using assms by (simp add: NL_def CR_def)
  then have "IndexByte ((l @ [CR]) @ NL # rest) NL = Some (length (l @ [CR]))"
    by (rule IndexByte_first)
  then have i: "IndexByte (l @ CR # NL # rest) NL = Some (Suc (length l))" by simp
  show ?thesis
    by (simp add: readLine_def i nth_append)
qed

lemma nextLine_blank: "nextLine (CR # NL # rest) = nextLine rest"
  using readLine_CRLF [of "[]" rest]
  by (simp add: nextLine.simps [of "CR # NL # rest"] lengthNL_def)

lemma nextLine_line:
  assumes "NL \<notin> set l" and "l \<noteq> []"
  shows "nextLine (l @ CR # NL # rest) = (l @ [NL], False, rest)"
  using readLine_CRLF [OF assms(1), of rest] assms(2)
  by (simp add: nextLine.simps [of "l @ CR # NL # rest"] lengthNL_def)

lemma nextLine_Nil: "nextLine [] = ([], True, [])"
  by (simp add: nextLine.simps [of "[]"] readLine_def)

lemma parseFields_plain:
  assumes "\<forall>f \<in> set fs. plainField f" and "fs \<noteq> []"
  shows "parseFields acc (joinFields fs @ [NL]) rest = (acc @ map TrimLeftSpace fs, None, rest)"
  using assms
proof (induction fs arbitrary: acc rule: joinFields.induct)
  case 1
  then show ?case by simp
next
  case (2 f)
  define t where "t = TrimLeftSpace f"
  from 2 have pf: "COMMA \<notin> set f" "QUOTE \<notin> set f" "NL \<notin> set f"
    by (simp_all add: plainField_def)
  with TrimLeftSpace_set [of f] have pt: "COMMA \<notin> set t" "QUOTE \<notin> set t"
    by (auto simp: t_def)
  define line where "line = (if t = [] then [] else t @ [NL])"
  have tl: "TrimLeftSpace (f @ [NL]) = line"
    using pf(3) by (simp add: TrimLeftSpace_before_NL t_def line_def)
  have hd: "line = [] \<or> hd line \<noteq> QUOTE"
    using pt(2) by (cases t) (auto simp: line_def)
  have nc: "IndexByte line COMMA = None"
    using pt(1) by (simp add: IndexByte_None_iff line_def COMMA_def NL_def)
  have field: "take (length line - lengthNL line) line = t"
    by (simp add: line_def lengthNL_def)
  show ?case
    using hd nc pt(2)
    by (simp add: parseFields.simps [of acc "f @ [NL]" rest] tl field Let_def t_def [symmetric])
next
  case (3 f g fs)
  define t where "t = TrimLeftSpace f"
  define zs where "zs = joinFields (g # fs) @ [NL]"
  from 3 have pf: "COMMA \<notin> set f" "QUOTE \<notin> set f" "NL \<notin> set f"
    by (simp_all add: plainField_def)
  with TrimLeftSpace_set [of f] have pt: "COMMA \<notin> set t" "QUOTE \<notin> set t"
    by (auto simp: t_def)
  have l0: "joinFields (f # g # fs) @ [NL] = f @ COMMA # zs"
    by (simp add: zs_def)
  have tl: "TrimLeftSpace (f @ COMMA # zs) = t @ COMMA # zs"
    by (simp add: TrimLeftSpace_before_comma t_def)
  have hd: "hd (t @ COMMA # zs) \<noteq> QUOTE"
    using pt(2) by (cases t) (auto simp: COMMA_def QUOTE_def)
  have ix: "IndexByte (t @ COMMA # zs) COMMA = Some (length t)"
    using pt(1) by (rule IndexByte_first)
  have IH: "parseFields (acc @ [t]) zs rest = ((acc @ [t]) @ map TrimLeftSpace (g # fs), None, rest)"
    unfolding zs_def using 3 by simp
  show ?case
    unfolding l0
    using hd pt(2) IH
    by (simp add: parseFields.simps [of acc "f @ COMMA # zs" rest] tl ix Let_def t_def [symmetric])
qed

lemma joinFields_no_NL: "\<forall>f \<in> set fs. plainField f \<Longrightarrow> NL \<notin> set (joinFields fs)"
  by (induction fs rule: joinFields.induct) (auto simp: plainField_def NL_def COMMA_def)

lemma Read_Nil: "Read [] = None"
  by (simp add: Read_def nextLine_Nil)

lemma Read_blank: "Read (CR # NL # rest) = Read rest"
  by (simp add: Read_def nextLine_blank)

lemma Read_line:
  assumes "\<forall>f \<in> set fs. plainField f" and "joinFields fs \<noteq> []"
  shows "Read (joinFields fs @ CR # NL # rest) = Some ((map TrimLeftSpace fs, None), rest)"
proof -
  from assms(2) have ne: "fs \<noteq> []" by auto
  have nl: "nextLine (joinFields fs @ CR # NL # rest) = (joinFields fs @ [NL], False, rest)"
    using joinFields_no_NL [OF assms(1)] assms(2) by (rule nextLine_line)
  show ?thesis
    using parseFields_plain [OF assms(1) ne, of "[]" rest]
    by (simp add: Read_def nl)
qed

text \<open>
  The reader gives one record for each line that is not empty: the fields between the
  commas, without their leading white space.
\<close>

lemma ReadRecords_csvLines:
  assumes "plainRows rows"
  shows "ReadRecords (csvLines rows) = map (\<lambda>fs. (map TrimLeftSpace fs, None)) (nonBlank rows)"
  using assms
proof (induction rows)
  case Nil
  show ?case
    by (simp add: csvLines_def nonBlank_def ReadRecords.simps [of "[]"] Read_Nil)
next
  case (Cons fs rows)
  from Cons.prems have p: "\<forall>f \<in> set fs. plainField f" and ps: "plainRows rows"
    by (simp_all add: plainRows_def)
  have split: "csvLines (fs # rows) = joinFields fs @ CR # NL # csvLines rows"
    by (simp add: csvLines_def)
  show ?case
  proof (cases "joinFields fs = []")
    case True
    then have "ReadRecords (csvLines (fs # rows)) = ReadRecords (csvLines rows)"
      by (simp add: split ReadRecords.simps [of "CR # NL # csvLines rows"] Read_blank
          ReadRecords.simps [of "csvLines rows"])
    with True Cons.IH [OF ps] show ?thesis by (simp add: nonBlank_def)
  next
    case False
    from Read_line [OF p False, of "csvLines rows"] False Cons.IH [OF ps]
    show ?thesis
      by (simp add: split ReadRecords.simps [of "joinFields fs @ CR # NL # csvLines rows"]
          nonBlank_def)
  qed
qed

subsection \<open>The header line in the text of a dump\<close>

lemma Index_after:
  assumes "sep \<noteq> []" and "NL \<notin> set sep" and "\<not> sublist sep a" and "a = [] \<or> last a = NL"
  shows "Index (a @ sep @ c) sep = Some (length a)"
  using assms(3,4)
proof (induction a)
  case Nil
  from assms(1) obtain x xs where "sep = x # xs" by (cases sep) auto
  then show ?case by simp
next
  case (Cons x a)
  have np: "\<not> prefix sep ((x # a) @ sep @ c)"
  proof
    assume "prefix sep ((x # a) @ sep @ c)"
    then consider "prefix sep (x # a)" | us where "sep = (x # a) @ us"
      unfolding prefix_append by blast
    then show False
    proof cases
      case 1
      then have "sublist sep (x # a)" by (rule prefix_imp_sublist)
      with Cons.prems show False by simp
    next
      case 2
      from Cons.prems(2) have "NL = last (x # a)" by simp
      then have "NL \<in> set (x # a)" using last_in_set [of "x # a"] by simp
      with 2 assms(2) show False by auto
    qed
  qed
  from Cons.prems have "\<not> sublist sep a" by (auto simp: sublist_Cons_right)
  moreover from Cons.prems(2) have "a = [] \<or> last a = NL" by (cases a) auto
  ultimately have "Index (a @ sep @ c) sep = Some (length a)" by (rule Cons.IH)
  with np show ?case by simp
qed

lemma Split_two:
  assumes "sep \<noteq> []" and "NL \<notin> set sep" and "\<not> sublist sep a" and "a = [] \<or> last a = NL"
    and "\<not> sublist sep c"
  shows "Split (a @ sep @ c) sep = [a, c]"
proof -
  have "Index (a @ sep @ c) sep = Some (length a)"
    using assms(1-4) by (rule Index_after)
  moreover have "Split c sep = [c]"
    using assms(1,5) by (rule Split_absent)
  ultimately show ?thesis
    using assms(1) by (subst Split.simps) simp
qed

lemma csvLines_last: "csvLines rows = [] \<or> last (csvLines rows) = NL"
  by (cases rows rule: rev_cases) (simp_all add: csvLines_def)

lemma dumpText_Split:
  assumes "\<not> sublist marker (csvLines aprows)" and "\<not> sublist marker (csvLines clrows)"
  shows "Split (dumpText aprows clrows) marker = [csvLines aprows, CR # NL # csvLines clrows]"
proof -
  have nl: "NL \<notin> set marker" by (simp add: marker_def NL_def)
  have "\<not> prefix marker (CR # NL # csvLines clrows)" "\<not> prefix marker (NL # csvLines clrows)"
    by (simp_all add: marker_def CR_def NL_def)
  with assms(2) have c: "\<not> sublist marker (CR # NL # csvLines clrows)"
    by (simp add: sublist_Cons_right)
  from Split_two [OF marker_not_Nil nl assms(1) csvLines_last c] show ?thesis
    by (simp add: dumpText_def)
qed

lemma ReadRecords_blank: "ReadRecords (CR # NL # s) = ReadRecords s"
  by (simp add: ReadRecords.simps [of "CR # NL # s"] Read_blank ReadRecords.simps [of s])

subsection \<open>The records of the rows\<close>

lemma joinFields_two: "2 \<le> length fs \<Longrightarrow> joinFields fs \<noteq> []"
  by (cases fs rule: joinFields.cases) auto

lemma filter_nonBlank:
  assumes "2 \<le> n"
  shows "filter (\<lambda>fs. n \<le> length fs) (nonBlank rows) = filter (\<lambda>fs. n \<le> length fs) rows"
proof -
  have "joinFields fs \<noteq> []" if "n \<le> length fs" for fs
    using joinFields_two [of fs] assms that by simp
  then show ?thesis
    unfolding nonBlank_def filter_filter by (intro filter_cong [OF refl]) auto
qed

lemma nth_map_first: "fs \<noteq> [] \<Longrightarrow> map f fs ! 0 = f (fs ! 0)"
  by (cases fs) simp_all

lemma apOfRecord_trimmed:
  assumes "14 \<le> length fs"
  shows "\<exists>ap. apOfRecord local (map TrimLeftSpace fs) = Some ap
     \<and> AccessPoint.MAC ap = ReplaceAll (TrimLeftSpace (fs ! 0)) (CHR '':'') (CHR ''-'')
     \<and> AccessPoint.FirstSeen ap = fst (ParseInLocation (TrimSpace (fs ! 1)) local)
     \<and> AccessPoint.LastSeen ap = fst (ParseInLocation (TrimSpace (fs ! 2)) local)
     \<and> Channel ap = fst (Atoi (TrimSpace (fs ! 3)))
     \<and> AccessPoint.Power ap = fst (Atoi (TrimSpace (fs ! 8)))"
proof -
  from assms obtain ap where ap: "apOfRecord local (map TrimLeftSpace fs) = Some ap"
    using apOfRecord_Some_iff [of local "map TrimLeftSpace fs"] by auto
  from assms have "fs \<noteq> []" by auto
  with apOfRecord_fields [OF ap] assms show ?thesis
    by (simp add: ap TrimSpace_TrimLeftSpace nth_map_first)
qed

lemma aps_of_rows:
  "map AccessPoint.MAC (List.map_filter (\<lambda>(row, err). apOfRecord local row)
        (map (\<lambda>fs. (map TrimLeftSpace fs, None :: CsvError option)) rs))
     = map (\<lambda>fs. ReplaceAll (TrimLeftSpace (fs ! 0)) (CHR '':'') (CHR ''-''))
         (filter (\<lambda>fs. 14 \<le> length fs) rs)
   \<and> map AccessPoint.FirstSeen (List.map_filter (\<lambda>(row, err). apOfRecord local row)
        (map (\<lambda>fs. (map TrimLeftSpace fs, None :: CsvError option)) rs))
     = map (\<lambda>fs. fst (ParseInLocation (TrimSpace (fs ! 1)) local))
         (filter (\<lambda>fs. 14 \<le> length fs) rs)
   \<and> map AccessPoint.LastSeen (List.map_filter (\<lambda>(row, err). apOfRecord local row)
        (map (\<lambda>fs. (map TrimLeftSpace fs, None :: CsvError option)) rs))
     = map (\<lambda>fs. fst (ParseInLocation (TrimSpace (fs ! 2)) local))
         (filter (\<lambda>fs. 14 \<le> length fs) rs)
   \<and> map Channel (List.map_filter (\<lambda>(row, err). apOfRecord local row)
        (map (\<lambda>fs. (map TrimLeftSpace fs, None :: CsvError option)) rs))
     = map (\<lambda>fs. fst (Atoi (TrimSpace (fs ! 3)))) (filter (\<lambda>fs. 14 \<le> length fs) rs)
   \<and> map AccessPoint.Power (List.map_filter (\<lambda>(row, err). apOfRecord local row)
        (map (\<lambda>fs. (map TrimLeftSpace fs, None :: CsvError option)) rs))
     = map (\<lambda>fs. fst (Atoi (TrimSpace (fs ! 8)))) (filter (\<lambda>fs. 14 \<le> length fs) rs)"
proof (induction rs)
  case Nil
  show ?case by (simp add: List.map_filter_simps)
next
  case (Cons fs rs)
  show ?case
  proof (cases "14 \<le> length fs")
    case True
    from apOfRecord_trimmed [OF True, of local] obtain ap where
      "apOfRecord local (map TrimLeftSpace fs) = Some ap"
      "AccessPoint.MAC ap = ReplaceAll (TrimLeftSpace (fs ! 0)) (CHR '':'') (CHR ''-'')"
      "AccessPoint.FirstSeen ap = fst (ParseInLocation (TrimSpace (fs ! 1)) local)"
      "AccessPoint.LastSeen ap = fst (ParseInLocation (TrimSpace (fs ! 2)) local)"
      "Channel ap = fst (Atoi (TrimSpace (fs ! 3)))"
      "AccessPoint.Power ap = fst (Atoi (TrimSpace (fs ! 8)))"
      by blast
    with True Cons.IH show ?thesis by (simp add: List.map_filter_simps)
  next
    case False
    then have "apOfRecord local (map TrimLeftSpace fs) = None"
      by (simp add: apOfRecord_None_iff)
    with False Cons.IH show ?thesis by (simp add: List.map_filter_simps)
  qed
qed

lemma clientOfRecord_trimmed:
  assumes "7 \<le> length fs" and "8 \<le> length (TrimLeftSpace (fs ! 0))"
  shows "\<exists>c. clientOfRecord local ouidb ciddb (map TrimLeftSpace fs) = Inr (Some c)
     \<and> MAC c = ReplaceAll (TrimLeftSpace (fs ! 0)) (CHR '':'') (CHR ''-'')
     \<and> FirstSeen c = fst (ParseInLocation (TrimSpace (fs ! 1)) local)
     \<and> LastSeen c = fst (ParseInLocation (TrimSpace (fs ! 2)) local)
     \<and> Power c = fst (Atoi (TrimSpace (fs ! 3)))
     \<and> Packets c = fst (Atoi (TrimSpace (fs ! 4)))"
proof -
  from assms(1) have ne: "fs \<noteq> []" by auto
  with assms obtain c where c: "clientOfRecord local ouidb ciddb (map TrimLeftSpace fs) = Inr (Some c)"
    using clientOfRecord_Some [of "map TrimLeftSpace fs" local ouidb ciddb]
    by (auto simp: nth_map_first)
  from clientOfRecord_fields [OF c] clientOfRecord_MAC [OF c] assms(1) ne show ?thesis
    by (simp add: c TrimSpace_TrimLeftSpace nth_map_first)
qed

lemma clients_of_rows:
  assumes "\<forall>fs \<in> set rs. 7 \<le> length fs \<longrightarrow> 8 \<le> length (TrimLeftSpace (fs ! 0))"
  shows "\<exists>cs. getClientsData_loop local ouidb ciddb (map (\<lambda>fs. (map TrimLeftSpace fs, None)) rs)
          = Inr cs
     \<and> map MAC cs = map (\<lambda>fs. ReplaceAll (TrimLeftSpace (fs ! 0)) (CHR '':'') (CHR ''-''))
         (filter (\<lambda>fs. 7 \<le> length fs) rs)
     \<and> map FirstSeen cs = map (\<lambda>fs. fst (ParseInLocation (TrimSpace (fs ! 1)) local))
         (filter (\<lambda>fs. 7 \<le> length fs) rs)
     \<and> map LastSeen cs = map (\<lambda>fs. fst (ParseInLocation (TrimSpace (fs ! 2)) local))
         (filter (\<lambda>fs. 7 \<le> length fs) rs)
     \<and> map Power cs = map (\<lambda>fs. fst (Atoi (TrimSpace (fs ! 3))))
         (filter (\<lambda>fs. 7 \<le> length fs) rs)
     \<and> map Packets cs = map (\<lambda>fs. fst (Atoi (TrimSpace (fs ! 4))))
         (filter (\<lambda>fs. 7 \<le> length fs) rs)"
  using assms
proof (induction rs)
  case Nil
  show ?case by simp
next
  case (Cons fs rs)
  from Cons obtain cs where
    cs: "getClientsData_loop local ouidb ciddb (map (\<lambda>fs. (map TrimLeftSpace fs, None)) rs)
          = Inr cs"
     "map MAC cs = map (\<lambda>fs. ReplaceAll (TrimLeftSpace (fs ! 0)) (CHR '':'') (CHR ''-''))
         (filter (\<lambda>fs. 7 \<le> length fs) rs)"
     "map FirstSeen cs = map (\<lambda>fs. fst (ParseInLocation (TrimSpace (fs ! 1)) local))
         (filter (\<lambda>fs. 7 \<le> length fs) rs)"
     "map LastSeen cs = map (\<lambda>fs. fst (ParseInLocation (TrimSpace (fs ! 2)) local))
         (filter (\<lambda>fs. 7 \<le> length fs) rs)"
     "map Power cs = map (\<lambda>fs. fst (Atoi (TrimSpace (fs ! 3))))
         (filter (\<lambda>fs. 7 \<le> length fs) rs)"
     "map Packets cs = map (\<lambda>fs. fst (Atoi (TrimSpace (fs ! 4))))
         (filter (\<lambda>fs. 7 \<le> length fs) rs)"
    by auto
  show ?case
  proof (cases "7 \<le> length fs")
    case True
    with Cons.prems have "8 \<le> length (TrimLeftSpace (fs ! 0))" by simp
    from clientOfRecord_trimmed [OF True this, of local ouidb ciddb] obtain c where
      "clientOfRecord local ouidb ciddb (map TrimLeftSpace fs) = Inr (Some c)"
      "MAC c = ReplaceAll (TrimLeftSpace (fs ! 0)) (CHR '':'') (CHR ''-'')"
      "FirstSeen c = fst (ParseInLocation (TrimSpace (fs ! 1)) local)"
      "LastSeen c = fst (ParseInLocation (TrimSpace (fs ! 2)) local)"
      "Power c = fst (Atoi (TrimSpace (fs ! 3)))"
      "Packets c = fst (Atoi (TrimSpace (fs ! 4)))"
      by blast
    with True cs show ?thesis by simp
  next
    case False
    then have "clientOfRecord local ouidb ciddb (map TrimLeftSpace fs) = Inr None"
      by (simp add: clientOfRecord_None_iff)
    with False cs show ?thesis by simp
  qed
qed

lemma clients_of_rows_panic:
  assumes "fs \<in> set rs" and "7 \<le> length fs" and "length (TrimLeftSpace (fs ! 0)) < 8"
  shows "getClientsData_loop local ouidb ciddb (map (\<lambda>fs. (map TrimLeftSpace fs, None)) rs)
          = Inl SliceOutOfRange"
proof -
  from assms(2) have "fs \<noteq> []" by auto
  with assms(2,3) have "clientOfRecord local ouidb ciddb (map TrimLeftSpace fs) = Inl SliceOutOfRange"
    by (intro clientOfRecord_short_address) (simp_all add: nth_map_first)
  moreover from assms(1) have "(map TrimLeftSpace fs, None)
      \<in> set (map (\<lambda>fs. (map TrimLeftSpace fs, None :: CsvError option)) rs)"
    by auto
  ultimately show ?thesis by (rule getClientsData_loop_panics [rotated])
qed

text \<open>The two sections of a dump, read from its text.\<close>

lemma getAPData_csvLines:
  assumes "plainRows rows"
  shows "getAPData local (csvLines rows)
     = List.map_filter (\<lambda>(row, err). apOfRecord local row)
         (map (\<lambda>fs. (map TrimLeftSpace fs, None :: CsvError option)) (tl (nonBlank rows)))"
  by (simp add: getAPData_eq ReadRecords_csvLines [OF assms] map_tl)

lemma getClientsData_csvLines:
  assumes "plainRows rows"
  shows "getClientsData local ouidb ciddb (csvLines rows)
     = getClientsData_loop local ouidb ciddb
         (map (\<lambda>fs. (map TrimLeftSpace fs, None)) (nonBlank rows))"
  by (simp add: getClientsData_def ReadRecords_csvLines [OF assms])

lemma getClientsData_csvLines_ok:
  assumes "plainRows rows"
    and "\<forall>fs \<in> set rows. 7 \<le> length fs \<longrightarrow> 8 \<le> length (TrimLeftSpace (fs ! 0))"
  shows "\<exists>cs. getClientsData local ouidb ciddb (csvLines rows) = Inr cs
     \<and> map MAC cs = map (\<lambda>fs. ReplaceAll (TrimLeftSpace (fs ! 0)) (CHR '':'') (CHR ''-''))
         (filter (\<lambda>fs. 7 \<le> length fs) rows)
     \<and> map FirstSeen cs = map (\<lambda>fs. fst (ParseInLocation (TrimSpace (fs ! 1)) local))
         (filter (\<lambda>fs. 7 \<le> length fs) rows)
     \<and> map LastSeen cs = map (\<lambda>fs. fst (ParseInLocation (TrimSpace (fs ! 2)) local))
         (filter (\<lambda>fs. 7 \<le> length fs) rows)
     \<and> map Power cs = map (\<lambda>fs. fst (Atoi (TrimSpace (fs ! 3))))
         (filter (\<lambda>fs. 7 \<le> length fs) rows)
     \<and> map Packets cs = map (\<lambda>fs. fst (Atoi (TrimSpace (fs ! 4))))
         (filter (\<lambda>fs. 7 \<le> length fs) rows)"
proof -
  from assms(2) have "\<forall>fs \<in> set (nonBlank rows). 7 \<le> length fs \<longrightarrow> 8 \<le> length (TrimLeftSpace (fs ! 0))"
    by (simp add: nonBlank_def)
  from clients_of_rows [OF this, of local ouidb ciddb] show ?thesis
    unfolding getClientsData_csvLines [OF assms(1)] by (simp add: filter_nonBlank)
qed

lemma getClientsData_csvLines_panic:
  assumes "plainRows rows"
    and "\<exists>fs \<in> set rows. 7 \<le> length fs \<and> length (TrimLeftSpace (fs ! 0)) < 8"
  shows "getClientsData local ouidb ciddb (csvLines rows) = Inl SliceOutOfRange"
proof -
  from assms(2) obtain fs where fs: "fs \<in> set rows" "7 \<le> length fs"
    "length (TrimLeftSpace (fs ! 0)) < 8" by blast
  from fs(1,2) have "fs \<in> set (nonBlank rows)"
    using joinFields_two [of fs] by (simp add: nonBlank_def)
  from clients_of_rows_panic [OF this fs(2,3)] show ?thesis
    unfolding getClientsData_csvLines [OF assms(1)] .
qed

subsection \<open>Fields that do not parse\<close>

lemma ParseInLocation_error_zero:
  "snd (ParseInLocation v loc) \<Longrightarrow> fst (ParseInLocation v loc) = 0"
  by (simp add: ParseInLocation_def split: option.splits)

lemma Atoi_syntax_zero: "snd (Atoi v) = Some ErrSyntax \<Longrightarrow> fst (Atoi v) = 0"
  by (auto simp: Atoi_def ParseInt_def Let_def split: if_splits prod.splits)

text \<open>
  Claim C1, as the code has it.  In a section whose rows are made of plain fields, a row
  is left out only for having too few columns.  In the access-point section the records
  are those of the rows with at least 14 columns among the lines after the first line
  that is not empty; in the client section they are those of the rows with at least 7
  columns.  A timestamp or an integer field that fails to parse does not make the row
  skipped: the record holds what the failed conversion returned, which is the zero time
  for a timestamp and 0 for an integer with a syntax error.  For the client section this
  holds when every row with at least 7 columns has an address of at least 8 bytes (after
  the white space before it); when some such row has a shorter address,
  \<^verbatim>\<open>getClientsData\<close> panics and returns no record at all.
\<close>

theorem unparsed_fields_keep_row:
  assumes "plainRows rows"
  shows "map AccessPoint.FirstSeen (getAPData local (csvLines rows))
           = map (\<lambda>fs. fst (ParseInLocation (TrimSpace (fs ! 1)) local))
               (filter (\<lambda>fs. 14 \<le> length fs) (tl (nonBlank rows)))
       \<and> map AccessPoint.LastSeen (getAPData local (csvLines rows))
           = map (\<lambda>fs. fst (ParseInLocation (TrimSpace (fs ! 2)) local))
               (filter (\<lambda>fs. 14 \<le> length fs) (tl (nonBlank rows)))
       \<and> map Channel (getAPData local (csvLines rows))
           = map (\<lambda>fs. fst (Atoi (TrimSpace (fs ! 3))))
               (filter (\<lambda>fs. 14 \<le> length fs) (tl (nonBlank rows)))
       \<and> map AccessPoint.Power (getAPData local (csvLines rows))
           = map (\<lambda>fs. fst (Atoi (TrimSpace (fs ! 8))))
               (filter (\<lambda>fs. 14 \<le> length fs) (tl (nonBlank rows)))
       \<and> ((\<forall>fs \<in> set rows. 7 \<le> length fs \<longrightarrow> 8 \<le> length (TrimLeftSpace (fs ! 0))) \<longrightarrow>
            (\<exists>cs. getClientsData local ouidb ciddb (csvLines rows) = Inr cs
               \<and> map FirstSeen cs
                   = map (\<lambda>fs. fst (ParseInLocation (TrimSpace (fs ! 1)) local))
                       (filter (\<lambda>fs. 7 \<le> length fs) rows)
               \<and> map LastSeen cs
                   = map (\<lambda>fs. fst (ParseInLocation (TrimSpace (fs ! 2)) local))
                       (filter (\<lambda>fs. 7 \<le> length fs) rows)
               \<and> map Power cs
                   = map (\<lambda>fs. fst (Atoi (TrimSpace (fs ! 3))))
                       (filter (\<lambda>fs. 7 \<le> length fs) rows)
               \<and> map Packets cs
                   = map (\<lambda>fs. fst (Atoi (TrimSpace (fs ! 4))))
                       (filter (\<lambda>fs. 7 \<le> length fs) rows)))
       \<and> ((\<exists>fs \<in> set rows. 7 \<le> length fs \<and> length (TrimLeftSpace (fs ! 0)) < 8) \<longrightarrow>
            getClientsData local ouidb ciddb (csvLines rows) = Inl SliceOutOfRange)
       \<and> (snd (ParseInLocation v local) \<longrightarrow> fst (ParseInLocation v local) = 0)
       \<and> (snd (Atoi v) = Some ErrSyntax \<longrightarrow> fst (Atoi v) = 0)"
proof -
  note aps = aps_of_rows [of local "tl (nonBlank rows)", folded getAPData_csvLines [OF assms]]
  have ok: "\<exists>cs. getClientsData local ouidb ciddb (csvLines rows) = Inr cs
               \<and> map FirstSeen cs
                   = map (\<lambda>fs. fst (ParseInLocation (TrimSpace (fs ! 1)) local))
                       (filter (\<lambda>fs. 7 \<le> length fs) rows)
               \<and> map LastSeen cs
                   = map (\<lambda>fs. fst (ParseInLocation (TrimSpace (fs ! 2)) local))
                       (filter (\<lambda>fs. 7 \<le> length fs) rows)
               \<and> map Power cs
                   = map (\<lambda>fs. fst (Atoi (TrimSpace (fs ! 3))))
                       (filter (\<lambda>fs. 7 \<le> length fs) rows)
               \<and> map Packets cs
                   = map (\<lambda>fs. fst (Atoi (TrimSpace (fs ! 4))))
                       (filter (\<lambda>fs. 7 \<le> length fs) rows)"
    if "\<forall>fs \<in> set rows. 7 \<le> length fs \<longrightarrow> 8 \<le> length (TrimLeftSpace (fs ! 0))"
    using getClientsData_csvLines_ok [OF assms that, of local ouidb ciddb] by blast
  have bad: "getClientsData local ouidb ciddb (csvLines rows) = Inl SliceOutOfRange"
    if "\<exists>fs \<in> set rows. 7 \<le> length fs \<and> length (TrimLeftSpace (fs ! 0)) < 8"
    using assms that by (rule getClientsData_csvLines_panic)
  from aps ok bad ParseInLocation_error_zero [of v local] Atoi_syntax_zero [of v]
  show ?thesis by blast
qed

theorem unparsed_fields_keep_row_witness:
  "plainRows unparsed_ap_rows
   \<and> snd (ParseInLocation (TrimSpace (unparsed_ap_rows ! 1 ! 1)) UTC)
   \<and> snd (Atoi (TrimSpace (unparsed_ap_rows ! 1 ! 3))) = Some ErrSyntax
   \<and> map AccessPoint.FirstSeen (getAPData UTC (csvLines unparsed_ap_rows)) = [0]
   \<and> map AccessPoint.LastSeen (getAPData UTC (csvLines unparsed_ap_rows))
       = [63839700300000000000]
   \<and> map Channel (getAPData UTC (csvLines unparsed_ap_rows)) = [0]
   \<and> map AccessPoint.Power (getAPData UTC (csvLines unparsed_ap_rows)) = [- 55]
   \<and> plainRows unparsed_client_rows
   \<and> snd (ParseInLocation (TrimSpace (unparsed_client_rows ! 0 ! 1)) UTC)
   \<and> snd (Atoi (TrimSpace (unparsed_client_rows ! 0 ! 3))) = Some ErrSyntax
   \<and> (\<exists>cs. getClientsData UTC Map.empty Map.empty (csvLines unparsed_client_rows) = Inr cs
        \<and> map FirstSeen cs = [0, 63839700000000000000]
        \<and> map LastSeen cs = [63839700300000000000, 63839700180000000000]
        \<and> map Power cs = [0, - 60]
        \<and> map Packets cs = [12, 3])
   \<and> plainRows unparsed_short_rows
   \<and> getClientsData UTC Map.empty Map.empty (csvLines unparsed_short_rows) = Inl SliceOutOfRange"
proof -
  have pa: "plainRows unparsed_ap_rows" and pc: "plainRows unparsed_client_rows"
    and ps: "plainRows unparsed_short_rows"
    by code_simp+
  have fa: "snd (ParseInLocation (TrimSpace (unparsed_ap_rows ! 1 ! 1)) UTC)"
    "snd (Atoi (TrimSpace (unparsed_ap_rows ! 1 ! 3))) = Some ErrSyntax"
    "snd (ParseInLocation (TrimSpace (unparsed_client_rows ! 0 ! 1)) UTC)"
    "snd (Atoi (TrimSpace (unparsed_client_rows ! 0 ! 3))) = Some ErrSyntax"
    by code_simp+
  have va: "map (\<lambda>fs. fst (ParseInLocation (TrimSpace (fs ! 1)) UTC))
               (filter (\<lambda>fs. 14 \<le> length fs) (tl (nonBlank unparsed_ap_rows))) = [0]"
    "map (\<lambda>fs. fst (ParseInLocation (TrimSpace (fs ! 2)) UTC))
               (filter (\<lambda>fs. 14 \<le> length fs) (tl (nonBlank unparsed_ap_rows)))
       = [63839700300000000000]"
    "map (\<lambda>fs. fst (Atoi (TrimSpace (fs ! 3))))
               (filter (\<lambda>fs. 14 \<le> length fs) (tl (nonBlank unparsed_ap_rows))) = [0]"
    "map (\<lambda>fs. fst (Atoi (TrimSpace (fs ! 8))))
               (filter (\<lambda>fs. 14 \<le> length fs) (tl (nonBlank unparsed_ap_rows))) = [- 55]"
    by code_simp+
  have vc: "map (\<lambda>fs. fst (ParseInLocation (TrimSpace (fs ! 1)) UTC))
               (filter (\<lambda>fs. 7 \<le> length fs) unparsed_client_rows) = [0, 63839700000000000000]"
    "map (\<lambda>fs. fst (ParseInLocation (TrimSpace (fs ! 2)) UTC))
               (filter (\<lambda>fs. 7 \<le> length fs) unparsed_client_rows)
       = [63839700300000000000, 63839700180000000000]"
    "map (\<lambda>fs. fst (Atoi (TrimSpace (fs ! 3))))
               (filter (\<lambda>fs. 7 \<le> length fs) unparsed_client_rows) = [0, - 60]"
    "map (\<lambda>fs. fst (Atoi (TrimSpace (fs ! 4))))
               (filter (\<lambda>fs. 7 \<le> length fs) unparsed_client_rows) = [12, 3]"
    by code_simp+
  have long: "\<forall>fs \<in> set unparsed_client_rows. 7 \<le> length fs \<longrightarrow> 8 \<le> length (TrimLeftSpace (fs ! 0))"
    by code_simp
  have short: "\<exists>fs \<in> set unparsed_short_rows. 7 \<le> length fs \<and> length (TrimLeftSpace (fs ! 0)) < 8"
    by code_simp
  note A = unparsed_fields_keep_row [OF pa, of UTC]
  note C = unparsed_fields_keep_row [OF pc, of UTC Map.empty Map.empty]
  note S = unparsed_fields_keep_row [OF ps, of UTC Map.empty Map.empty]
  from A have a: "map AccessPoint.FirstSeen (getAPData UTC (csvLines unparsed_ap_rows)) = [0]"
    "map AccessPoint.LastSeen (getAPData UTC (csvLines unparsed_ap_rows)) = [63839700300000000000]"
    "map Channel (getAPData UTC (csvLines unparsed_ap_rows)) = [0]"
    "map AccessPoint.Power (getAPData UTC (csvLines unparsed_ap_rows)) = [- 55]"
    unfolding va by blast+
  from C long have c: "\<exists>cs. getClientsData UTC Map.empty Map.empty (csvLines unparsed_client_rows) = Inr cs
        \<and> map FirstSeen cs = [0, 63839700000000000000]
        \<and> map LastSeen cs = [63839700300000000000, 63839700180000000000]
        \<and> map Power cs = [0, - 60]
        \<and> map Packets cs = [12, 3]"
    unfolding vc by blast
  from S short have s: "getClientsData UTC Map.empty Map.empty (csvLines unparsed_short_rows)
      = Inl SliceOutOfRange"
    by blast
  from pa pc ps fa a c s show ?thesis by blast
qed

text \<open>
  The claim as written fails: the client row below has a first-seen time and a power
  that do not parse, and it is not skipped but returned with the zero time and power 0.
\<close>

theorem unparsed_row_kept_counterexample:
  "snd (ParseInLocation (TrimSpace ''garbage'') UTC)
   \<and> snd (Atoi (TrimSpace ''abc'')) = Some ErrSyntax
   \<and> getClientsData UTC Map.empty Map.empty
        ''AA:BB:CC:DD:EE:FF, garbage, 2024-01-01 10:05:00, abc, 12, (not associated), ''
      = Inr [\<lparr> MAC = ''AA-BB-CC-DD-EE-FF'', FirstSeen = 0,
               LastSeen = 63839700300000000000, Power = 0, Packets = 12,
               BSSID = ''(not associated)'', Probes = [], Organization = ''LOCAL'' \<rparr>]"
  by code_simp

subsection \<open>A dump without the header line of the client section\<close>

text \<open>
  Claim C2 says that such a dump makes \<^verbatim>\<open>parse\<close> report a format error, return no
  records and leave the published lists as they were.  The code does not test how many
  pieces the split gave: for every text that does not contain the header line,
  \<^verbatim>\<open>csvdata[1]\<close> is out of range, \<^verbatim>\<open>parseAirodumpCsv\<close> panics and the cycle of
  \<^verbatim>\<open>getData\<close> ends with that panic instead of keeping the snapshot.
\<close>

theorem missing_marker_panics:
  assumes "\<not> sublist marker s"
  shows "parseAirodumpCsv local ouidb ciddb (Some s) = Inl IndexOutOfRange
       \<and> getData_cycle local ouidb ciddb snap (Some s) = Inl IndexOutOfRange
       \<and> getData local ouidb ciddb snap (Some s # files) = Inl IndexOutOfRange"
proof -
  from assms have "Split s marker = [s]"
    by (simp add: Split_absent marker_not_Nil)
  then have "parseAirodumpCsv local ouidb ciddb (Some s) = Inl IndexOutOfRange"
    by (simp add: parseAirodumpCsv_def Let_def)
  then show ?thesis by (simp add: getData_cycle_def)
qed

theorem missing_marker_panics_witness:
  "\<not> sublist marker no_marker_dump
   \<and> parseAirodumpCsv UTC Map.empty Map.empty (Some no_marker_dump) = Inl IndexOutOfRange
   \<and> getData_cycle UTC Map.empty Map.empty
        \<lparr> apsFound = [scenario_ap], clientsFound = [scenario_client] \<rparr> (Some no_marker_dump)
      = Inl IndexOutOfRange"
proof -
  have absent: "\<not> sublist marker no_marker_dump"
    by code_simp
  from missing_marker_panics [OF absent, of UTC Map.empty Map.empty
      "\<lparr> apsFound = [scenario_ap], clientsFound = [scenario_client] \<rparr>" "[]"] absent
  show ?thesis by simp
qed

subsection \<open>A dump file that cannot be read\<close>

text \<open>
  Claim C3, as the code has it.  When the dump file cannot be read, the process goes on
  (nothing panics), \<^verbatim>\<open>parseAirodumpCsv\<close> returns two empty lists, and the cycle assigns
  them: the access-point list and the client list that were published before are
  replaced by empty lists, and the next cycle starts from those.
\<close>

theorem unreadable_dump_empties_snapshot:
  "parseAirodumpCsv local ouidb ciddb None = Inr ([], [])
   \<and> getData_cycle local ouidb ciddb snap None = Inr \<lparr> apsFound = [], clientsFound = [] \<rparr>
   \<and> getData local ouidb ciddb snap (None # files)
      = getData local ouidb ciddb \<lparr> apsFound = [], clientsFound = [] \<rparr> files"
proof -
  have "getData_cycle local ouidb ciddb snap None = Inr \<lparr> apsFound = [], clientsFound = [] \<rparr>"
    by (simp add: parseAirodumpCsv_def getData_cycle_def)
  then show ?thesis
    by (simp add: parseAirodumpCsv_def)
qed

theorem unreadable_dump_empties_snapshot_witness:
  "getData UTC Map.empty Map.empty
       \<lparr> apsFound = [scenario_ap], clientsFound = [scenario_client] \<rparr> [Some scenario_dump, None]
     = Inr \<lparr> apsFound = [], clientsFound = [] \<rparr>"
proof -
  have "getData_cycle UTC Map.empty Map.empty
          \<lparr> apsFound = [scenario_ap], clientsFound = [scenario_client] \<rparr> (Some scenario_dump)
        = Inr \<lparr> apsFound = [scenario_ap], clientsFound = [scenario_client] \<rparr>"
    by code_simp
  with unreadable_dump_empties_snapshot [of UTC Map.empty Map.empty
      "\<lparr> apsFound = [scenario_ap], clientsFound = [scenario_client] \<rparr>" "[]"]
  show ?thesis by simp
qed

text \<open>
  The claim as written fails: a snapshot with one access point and one client is not
  retained by a cycle that cannot read the file.
\<close>

theorem unreadable_dump_counterexample:
  "getData_cycle UTC Map.empty Map.empty
       \<lparr> apsFound = [scenario_ap], clientsFound = [scenario_client] \<rparr> None
     = Inr \<lparr> apsFound = [], clientsFound = [] \<rparr>
   \<and> \<lparr> apsFound = [], clientsFound = [] \<rparr>
     \<noteq> \<lparr> apsFound = [scenario_ap], clientsFound = [scenario_client] \<rparr>"
  by (simp add: parseAirodumpCsv_def getData_cycle_def)

subsection \<open>A client address shorter than eight bytes\<close>

text \<open>
  Claim C10.  A client row with at least 7 columns whose address field is shorter than
  8 bytes is not skipped: \<^verbatim>\<open>isLocalMAC\<close> takes \<^verbatim>\<open>MAC[:2]\<close> and the enrichment takes
  \<^verbatim>\<open>c.MAC[:8]\<close> without a test of the length, so a dump with such a row in its client
  section makes \<^verbatim>\<open>parseAirodumpCsv\<close>, and with it the cycle of \<^verbatim>\<open>getData\<close>, end in
  a slice-bounds panic.
\<close>

theorem short_address_panics:
  assumes "sublist marker s"
    and "(row, err) \<in> set (ReadRecords (Split s marker ! 1))"
    and "7 \<le> length row" and "length (row ! 0) < 8"
  shows "parseAirodumpCsv local ouidb ciddb (Some s) = Inl SliceOutOfRange
       \<and> getData_cycle local ouidb ciddb snap (Some s) = Inl SliceOutOfRange"
proof -
  from assms(1) have two: "\<not> length (Split s marker) < 2"
    using Split_present [OF marker_not_Nil, of s] by simp
  from assms(3,4) have "clientOfRecord local ouidb ciddb row = Inl SliceOutOfRange"
    by (rule clientOfRecord_short_address)
  with assms(2) have "getClientsData local ouidb ciddb (Split s marker ! 1) = Inl SliceOutOfRange"
    unfolding getClientsData_def by (rule getClientsData_loop_panics)
  with two have "parseAirodumpCsv local ouidb ciddb (Some s) = Inl SliceOutOfRange"
    by (simp add: parseAirodumpCsv_def Let_def)
  then show ?thesis by (simp add: getData_cycle_def)
qed

theorem short_address_panics_witness:
  "sublist marker short_address_dump
   \<and> ([''ab'', ''2024-01-01 10:00:00'', ''2024-01-01 10:05:00'', ''-40'', ''12'',
        ''(not associated)'', []], None)
       \<in> set (ReadRecords (Split short_address_dump marker ! 1))
   \<and> parseAirodumpCsv UTC Map.empty Map.empty (Some short_address_dump) = Inl SliceOutOfRange"
proof -
  have present: "sublist marker short_address_dump"
    by code_simp
  have rows: "ReadRecords (Split short_address_dump marker ! 1)
      = [([''ab'', ''2024-01-01 10:00:00'', ''2024-01-01 10:05:00'', ''-40'', ''12'',
           ''(not associated)'', []], None)]"
    by code_simp
  then have mem: "([''ab'', ''2024-01-01 10:00:00'', ''2024-01-01 10:05:00'', ''-40'', ''12'',
        ''(not associated)'', []], None)
       \<in> set (ReadRecords (Split short_address_dump marker ! 1))"
    by simp
  from short_address_panics [OF present mem, of UTC Map.empty Map.empty] present mem
  show ?thesis by simp
qed

subsection \<open>Well-formed dumps\<close>

text \<open>
  Claim C7, as the code has it.  Take a dump made of plain fields in which the header
  line of the client section occurs nowhere but between the two sections, in which every
  line of the access-point section after the first that is not empty has at least 14
  columns, and in which every line of the client section that is not empty has at least
  7 columns and an address of at least 8 bytes (after the white space before it).  With
  \<open>A\<close> such lines after the first (the header row) in the access-point section and \<open>C\<close>
  such lines in the client section, \<^verbatim>\<open>parseAirodumpCsv\<close> returns exactly \<open>A\<close> access
  points and exactly \<open>C\<close> clients, one for each row and in the order of the rows: the
  header row of the access-point section gives no record, and every row of the client
  section, from its first, gives one.  No column has to parse for this.
\<close>

theorem well_formed_dump_counts:
  assumes "plainRows aprows" and "plainRows clrows"
    and "\<not> sublist marker (csvLines aprows)" and "\<not> sublist marker (csvLines clrows)"
    and "\<forall>fs \<in> set (tl (nonBlank aprows)). 14 \<le> length fs"
    and "\<forall>fs \<in> set (nonBlank clrows). 7 \<le> length fs \<and> 8 \<le> length (TrimLeftSpace (fs ! 0))"
  shows "\<exists>aps clients.
      parseAirodumpCsv local ouidb ciddb (Some (dumpText aprows clrows)) = Inr (aps, clients)
    \<and> length aps = length (tl (nonBlank aprows))
    \<and> length clients = length (nonBlank clrows)
    \<and> map AccessPoint.MAC aps
        = map (\<lambda>fs. map (\<lambda>ch. if ch = CHR '':'' then CHR ''-'' else ch) (TrimLeftSpace (fs ! 0)))
            (tl (nonBlank aprows))
    \<and> map MAC clients
        = map (\<lambda>fs. map (\<lambda>ch. if ch = CHR '':'' then CHR ''-'' else ch) (TrimLeftSpace (fs ! 0)))
            (nonBlank clrows)"
proof -
  have split: "Split (dumpText aprows clrows) marker = [csvLines aprows, CR # NL # csvLines clrows]"
    using assms(3,4) by (rule dumpText_Split)
  have fa: "filter (\<lambda>fs. 14 \<le> length fs) (tl (nonBlank aprows)) = tl (nonBlank aprows)"
    using assms(5) by simp
  have fc: "filter (\<lambda>fs. 7 \<le> length fs) (nonBlank clrows) = nonBlank clrows"
    using assms(6) by simp
  have amac: "map AccessPoint.MAC (getAPData local (csvLines aprows))
        = map (\<lambda>fs. map (\<lambda>ch. if ch = CHR '':'' then CHR ''-'' else ch) (TrimLeftSpace (fs ! 0)))
            (tl (nonBlank aprows))"
    using aps_of_rows [of local "tl (nonBlank aprows)", THEN conjunct1]
    by (simp add: getAPData_csvLines [OF assms(1)] fa ReplaceAll_def)
  from assms(6) have "\<forall>fs \<in> set (nonBlank clrows). 7 \<le> length fs \<longrightarrow> 8 \<le> length (TrimLeftSpace (fs ! 0))"
    by simp
  from clients_of_rows [OF this, of local ouidb ciddb] obtain cs where
    cs: "getClientsData_loop local ouidb ciddb (map (\<lambda>fs. (map TrimLeftSpace fs, None)) (nonBlank clrows))
          = Inr cs"
    and cmac: "map MAC cs = map (\<lambda>fs. ReplaceAll (TrimLeftSpace (fs ! 0)) (CHR '':'') (CHR ''-''))
         (filter (\<lambda>fs. 7 \<le> length fs) (nonBlank clrows))"
    by blast
  have run: "getClientsData local ouidb ciddb (CR # NL # csvLines clrows) = Inr cs"
    using cs by (simp add: getClientsData_def ReadRecords_blank ReadRecords_csvLines [OF assms(2)])
  have parse: "parseAirodumpCsv local ouidb ciddb (Some (dumpText aprows clrows))
      = Inr (getAPData local (csvLines aprows), cs)"
    by (simp add: parseAirodumpCsv_def split run Let_def)
  from amac have "length (getAPData local (csvLines aprows)) = length (tl (nonBlank aprows))"
    by (rule map_eq_imp_length_eq)
  moreover from cmac have "length cs = length (nonBlank clrows)"
    unfolding fc by (rule map_eq_imp_length_eq)
  moreover from cmac have "map MAC cs
        = map (\<lambda>fs. map (\<lambda>ch. if ch = CHR '':'' then CHR ''-'' else ch) (TrimLeftSpace (fs ! 0)))
            (nonBlank clrows)"
    by (simp add: fc ReplaceAll_def)
  ultimately show ?thesis using parse amac by blast
qed

theorem well_formed_dump_counts_witness:
  "plainRows dump_ap_rows \<and> plainRows dump_client_rows
   \<and> \<not> sublist marker (csvLines dump_ap_rows) \<and> \<not> sublist marker (csvLines dump_client_rows)
   \<and> map length (tl (nonBlank dump_ap_rows)) = [15, 15, 15]
   \<and> map length (nonBlank dump_client_rows) = [7, 7, 7]
   \<and> map (\<lambda>fs. length (TrimLeftSpace (fs ! 0))) (nonBlank dump_client_rows) = [17, 17, 17]
   \<and> (\<exists>aps clients.
        parseAirodumpCsv UTC Map.empty Map.empty (Some (dumpText dump_ap_rows dump_client_rows))
          = Inr (aps, clients)
      \<and> length aps = 3 \<and> length clients = 3
      \<and> map AccessPoint.MAC aps = [''00-11-22-33-44-55'', ''66-77-88-99-AA-BB'', ''CC-DD-EE-FF-00-11'']
      \<and> map MAC clients = [''AA-BB-CC-DD-EE-FF'', ''02-00-00-00-00-01'', ''00-1A-2B-00-00-01''])"
proof -
  have p: "plainRows dump_ap_rows" "plainRows dump_client_rows"
    by code_simp+
  have m: "\<not> sublist marker (csvLines dump_ap_rows)" "\<not> sublist marker (csvLines dump_client_rows)"
    by code_simp+
  have l: "map length (tl (nonBlank dump_ap_rows)) = [15, 15, 15]"
    "map length (nonBlank dump_client_rows) = [7, 7, 7]"
    "map (\<lambda>fs. length (TrimLeftSpace (fs ! 0))) (nonBlank dump_client_rows) = [17, 17, 17]"
    by code_simp+
  have h: "\<forall>fs \<in> set (tl (nonBlank dump_ap_rows)). 14 \<le> length fs"
    "\<forall>fs \<in> set (nonBlank dump_client_rows). 7 \<le> length fs \<and> 8 \<le> length (TrimLeftSpace (fs ! 0))"
    by code_simp+
  have v: "length (tl (nonBlank dump_ap_rows)) = 3" "length (nonBlank dump_client_rows) = 3"
    "map (\<lambda>fs. map (\<lambda>ch. if ch = CHR '':'' then CHR ''-'' else ch) (TrimLeftSpace (fs ! 0)))
            (tl (nonBlank dump_ap_rows))
       = [''00-11-22-33-44-55'', ''66-77-88-99-AA-BB'', ''CC-DD-EE-FF-00-11'']"
    "map (\<lambda>fs. map (\<lambda>ch. if ch = CHR '':'' then CHR ''-'' else ch) (TrimLeftSpace (fs ! 0)))
            (nonBlank dump_client_rows)
       = [''AA-BB-CC-DD-EE-FF'', ''02-00-00-00-00-01'', ''00-1A-2B-00-00-01'']"
    by code_simp+
  from well_formed_dump_counts [OF p m h, of UTC Map.empty Map.empty]
  have "\<exists>aps clients.
        parseAirodumpCsv UTC Map.empty Map.empty (Some (dumpText dump_ap_rows dump_client_rows))
          = Inr (aps, clients)
      \<and> length aps = 3 \<and> length clients = 3
      \<and> map AccessPoint.MAC aps = [''00-11-22-33-44-55'', ''66-77-88-99-AA-BB'', ''CC-DD-EE-FF-00-11'']
      \<and> map MAC clients = [''AA-BB-CC-DD-EE-FF'', ''02-00-00-00-00-01'', ''00-1A-2B-00-00-01'']"
    unfolding v .
  with p m l show ?thesis by blast
qed

text \<open>
  The claim as written fails.  The dump below has the header line of the client section,
  an access-point row of 15 columns and a client row of 7 columns, and every timestamp
  and every integer of the two rows parses, as do the first two characters of the client
  address; but that address has 7 bytes, and \<^verbatim>\<open>parseAirodumpCsv\<close> panics instead of
  returning one access point and one client.
\<close>

theorem short_address_dump_counterexample:
  "dumpText [ap_header_fields, home_ap_fields] short_address_client_rows
     = ap_header @ [CR, NL] @
       ''00:11:22:33:44:55, 2024-01-01 09:00:00, 2024-01-01 10:05:00,  6,  54, WPA2, CCMP, PSK, -55,       10,        0,   0.  0.  0.  0,   4, home, '' @ [CR, NL] @
       marker @ [CR, NL] @
       ''AA:BB:C, 2024-01-01 10:00:00, 2024-01-01 10:05:00, -40,       12, (not associated) , '' @ [CR, NL]
   \<and> plainRows [ap_header_fields, home_ap_fields] \<and> plainRows short_address_client_rows
   \<and> sublist marker (dumpText [ap_header_fields, home_ap_fields] short_address_client_rows)
   \<and> length home_ap_fields = 15
   \<and> \<not> snd (ParseInLocation (TrimSpace (home_ap_fields ! 1)) UTC)
   \<and> \<not> snd (ParseInLocation (TrimSpace (home_ap_fields ! 2)) UTC)
   \<and> snd (Atoi (TrimSpace (home_ap_fields ! 3))) = None
   \<and> snd (Atoi (TrimSpace (home_ap_fields ! 8))) = None
   \<and> map length short_address_client_rows = [7]
   \<and> \<not> snd (ParseInLocation (TrimSpace (short_address_client_rows ! 0 ! 1)) UTC)
   \<and> \<not> snd (ParseInLocation (TrimSpace (short_address_client_rows ! 0 ! 2)) UTC)
   \<and> snd (Atoi (TrimSpace (short_address_client_rows ! 0 ! 3))) = None
   \<and> snd (Atoi (TrimSpace (short_address_client_rows ! 0 ! 4))) = None
   \<and> snd (ParseInt (take 2 (short_address_client_rows ! 0 ! 0)) 16 32) = None
   \<and> parseAirodumpCsv UTC Map.empty Map.empty
        (Some (dumpText [ap_header_fields, home_ap_fields] short_address_client_rows))
      = Inl SliceOutOfRange"
  by (intro conjI; code_simp)

subsection \<open>The classifier\<close>

lemma hexDigit_digit_val:
  "hexDigit c = Some x \<Longrightarrow>
   digit_val c = Some x \<and> 0 \<le> x \<and> x < 16 \<and> c \<noteq> CHR ''+'' \<and> c \<noteq> CHR ''-''"
  by (auto simp: hexDigit_def digit_val_def Let_def split: if_splits)

lemma second_bit: "(drop_bit 1 k AND 1 = 1) = bit k 1" for k :: int
  by (simp add: and_one_eq bit_iff_odd_drop_bit mod_2_eq_odd)

lemma ParseInt_hex:
  assumes "hexDigit a = Some x" and "hexDigit b = Some y"
  shows "ParseInt [a, b] 16 32 = (x * 16 + y, None)"
proof -
  from assms [THEN hexDigit_digit_val]
  have a: "digit_val a = Some x" "0 \<le> x" "x < 16" "a \<noteq> CHR ''+''" "a \<noteq> CHR ''-''"
    and b: "digit_val b = Some y" "0 \<le> y" "y < 16"
    by simp_all
  from a b have "ParseUint_loop 16 (2 ^ 32 - 1) 0 [a, b] = (x * 16 + y, None)"
    by simp
  with a show ?thesis
    using b by (simp add: ParseInt_def ParseUint_def)
qed

lemma isLocalMAC_hex:
  assumes "hexDigit a = Some x" and "hexDigit b = Some y"
  shows "isLocalMAC (a # b # rest) = Inr (bit (16 * x + y) 1)"
proof -
  have "isLocalMAC (a # b # rest) = Inr (drop_bit 1 (x * 16 + y) AND 1 = 1)"
    by (simp add: isLocalMAC_def ParseInt_hex [OF assms])
  then show ?thesis
    by (simp only: second_bit mult.commute [of x 16])
qed

lemma isLocalMAC_main_hex:
  assumes "hexDigit a = Some x" and "hexDigit b = Some y"
  shows "isLocalMAC_main (a # b # rest) = Inr (bit (16 * x + y) 1)"
proof -
  have "isLocalMAC_main (a # b # rest) = Inr (drop_bit 1 (x * 16 + y) AND 1 = 1)"
    by (simp add: isLocalMAC_main_def ParseInt_hex [OF assms])
  then show ?thesis
    by (simp only: second_bit mult.commute [of x 16])
qed

lemma isLocalMAC_main_unparsable:
  assumes "2 \<le> length m" and "snd (ParseInt (take 2 m) 16 32) \<noteq> None"
  shows "isLocalMAC_main m = Inl Exited"
  using assms by (auto simp: isLocalMAC_main_def split: prod.splits)

lemma ParseInt_two_bytes_error:
  assumes "snd (ParseInt [a, b] 16 32) \<noteq> None"
  shows "fst (ParseInt [a, b] 16 32) = 0"
proof (cases "snd (ParseInt [a, b] 16 32) = Some ErrSyntax")
  case True
  then show ?thesis
    by (auto simp: ParseInt_def Let_def split: if_splits prod.splits)
next
  case False
  with assms have r: "snd (ParseInt [a, b] 16 32) = Some ErrRange"
    by (cases "snd (ParseInt [a, b] 16 32)") (auto intro: NumError.exhaust)
  have small: "fst (ParseUint s 16 32) \<le> 255 \<and> snd (ParseUint s 16 32) \<noteq> Some ErrRange"
    if "length s \<le> 2" for s
  proof (cases s)
    case Nil
    then show ?thesis by (simp add: ParseUint_def)
  next
    case (Cons c cs)
    show ?thesis
    proof (cases cs)
      case Nil
      with Cons show ?thesis
        by (auto simp: ParseUint_def digit_val_def Let_def split: option.splits if_splits)
    next
      case (Cons d ds)
      with that \<open>s = c # cs\<close> have "s = [c, d]" by simp
      then show ?thesis
        by (auto simp: ParseUint_def digit_val_def Let_def split: option.splits if_splits)
    qed
  qed
  from small [of "[a, b]"] small [of "[b]"] r show ?thesis
    by (auto simp: ParseInt_def Let_def split: if_splits prod.splits)
qed

lemma isLocalMAC_unparsable:
  assumes "2 \<le> length m" and "snd (ParseInt (take 2 m) 16 32) \<noteq> None"
  shows "isLocalMAC m = Inr False"
proof -
  from assms(1) obtain a b rest where m: "m = a # b # rest"
    by (cases m; cases "tl m") auto
  with assms(2) have "fst (ParseInt [a, b] 16 32) = 0"
    by (simp add: ParseInt_two_bytes_error)
  then obtain err where "ParseInt [a, b] 16 32 = (0, err)"
    by (cases "ParseInt [a, b] 16 32") simp
  with m show ?thesis
    by (simp add: isLocalMAC_def)
qed

text \<open>
  Claim C5, as the code has it.  For every address whose first two characters are
  hexadecimal digits, \<^verbatim>\<open>isLocalMAC\<close> returns true if and only if the
  second-least-significant bit of the byte they spell is 1; \<^verbatim>\<open>02-00-00-00-00-01\<close>
  classifies as locally administered and \<^verbatim>\<open>00-1A-2B-00-00-01\<close> as globally assigned.
  If the first two characters of an address do not parse as a hexadecimal number, the
  record is not skipped: \<^verbatim>\<open>isLocalMAC\<close> prints the error and returns false, and a row
  with at least 7 columns and an address of at least 8 bytes gives a record whose
  organization is looked up in the OUI registry, as for a globally assigned address.
  (The variant of \<^verbatim>\<open>isLocalMAC\<close> without access points classifies the same way and, on
  such an error, ends the process.)
\<close>

theorem isLocalMAC_tests_UL_bit:
  "(hexDigit a = Some x \<and> hexDigit b = Some y \<longrightarrow>
      isLocalMAC (a # b # rest) = Inr (bit (16 * x + y) 1))
   \<and> isLocalMAC ''02-00-00-00-00-01'' = Inr True
   \<and> isLocalMAC ''00-1A-2B-00-00-01'' = Inr False
   \<and> (2 \<le> length m \<and> snd (ParseInt (take 2 m) 16 32) \<noteq> None \<longrightarrow> isLocalMAC m = Inr False)
   \<and> (7 \<le> length row \<and> 8 \<le> length (row ! 0)
        \<and> snd (ParseInt (take 2 (ReplaceAll (row ! 0) (CHR '':'') (CHR ''-''))) 16 32) \<noteq> None \<longrightarrow>
      (\<exists>c. clientOfRecord local ouidb ciddb row = Inr (Some c)
          \<and> Organization c = TrimSpace (lookup ouidb (take 8 (MAC c)))))
   \<and> (hexDigit a = Some x \<and> hexDigit b = Some y \<longrightarrow>
      isLocalMAC_main (a # b # rest) = Inr (bit (16 * x + y) 1))
   \<and> (2 \<le> length m \<and> snd (ParseInt (take 2 m) 16 32) \<noteq> None \<longrightarrow>
      isLocalMAC_main m = Inl Exited)"
proof (intro conjI impI)
  assume "hexDigit a = Some x \<and> hexDigit b = Some y"
  then show "isLocalMAC (a # b # rest) = Inr (bit (16 * x + y) 1)"
    by (simp add: isLocalMAC_hex)
next
  assume "hexDigit a = Some x \<and> hexDigit b = Some y"
  then show "isLocalMAC_main (a # b # rest) = Inr (bit (16 * x + y) 1)"
    by (simp add: isLocalMAC_main_hex)
next
  assume "2 \<le> length m \<and> snd (ParseInt (take 2 m) 16 32) \<noteq> None"
  then show "isLocalMAC_main m = Inl Exited"
    by (simp add: isLocalMAC_main_unparsable)
next
  show "isLocalMAC ''02-00-00-00-00-01'' = Inr True"
    by code_simp
next
  show "isLocalMAC ''00-1A-2B-00-00-01'' = Inr False"
    by code_simp
next
  assume "2 \<le> length m \<and> snd (ParseInt (take 2 m) 16 32) \<noteq> None"
  then show "isLocalMAC m = Inr False"
    by (simp add: isLocalMAC_unparsable)
next
  let ?m = "ReplaceAll (row ! 0) (CHR '':'') (CHR ''-'')"
  assume a: "7 \<le> length row \<and> 8 \<le> length (row ! 0)
        \<and> snd (ParseInt (take 2 ?m) 16 32) \<noteq> None"
  then obtain c where c: "clientOfRecord local ouidb ciddb row = Inr (Some c)"
    using clientOfRecord_Some by blast
  have "length ?m = length (row ! 0)" by (simp add: ReplaceAll_def)
  with a have "isLocalMAC ?m = Inr False"
    by (intro isLocalMAC_unparsable) simp_all
  with clientOfRecord_MAC [OF c] have "isLocalMAC (MAC c) = Inr False" by simp
  from clientOfRecord_global [OF c this] c
  show "\<exists>c. clientOfRecord local ouidb ciddb row = Inr (Some c)
          \<and> Organization c = TrimSpace (lookup ouidb (take 8 (MAC c)))"
    by blast
qed

theorem isLocalMAC_tests_UL_bit_witness:
  "hexDigit (CHR ''A'') = Some 10
   \<and> isLocalMAC ''AA-BB-CC-DD-EE-FF'' = Inr True
   \<and> bit (170 :: int) 1
   \<and> 2 \<le> length ''ZZ-BB-CC-DD-EE-FF''
   \<and> snd (ParseInt (take 2 ''ZZ-BB-CC-DD-EE-FF'') 16 32) = Some ErrSyntax
   \<and> isLocalMAC ''ZZ-BB-CC-DD-EE-FF'' = Inr False
   \<and> 7 \<le> length unparsable_address_fields
   \<and> 8 \<le> length (unparsable_address_fields ! 0)
   \<and> clientOfRecord UTC Map.empty Map.empty unparsable_address_fields
        = Inr (Some unparsable_address_client)
   \<and> Organization unparsable_address_client = []
   \<and> isLocalMAC_main ''AA-BB-CC-DD-EE-FF'' = Inr True
   \<and> isLocalMAC_main ''ZZ-BB-CC-DD-EE-FF'' = Inl Exited"
proof -
  note T = isLocalMAC_tests_UL_bit
    [of "CHR ''A''" 10 "CHR ''A''" 10 "''-BB-CC-DD-EE-FF''" "''ZZ-BB-CC-DD-EE-FF''"
      unparsable_address_fields UTC Map.empty Map.empty]
  have hex: "hexDigit (CHR ''A'') = Some 10"
    by (simp add: hexDigit_def)
  have bit: "bit (170 :: int) 1"
    by (simp add: bit_iff_odd_drop_bit drop_bit_eq_div)
  from T hex bit have loc: "isLocalMAC ''AA-BB-CC-DD-EE-FF'' = Inr True"
    by simp
  have err: "snd (ParseInt (take 2 ''ZZ-BB-CC-DD-EE-FF'') 16 32) = Some ErrSyntax"
    by code_simp
  with T have glob: "isLocalMAC ''ZZ-BB-CC-DD-EE-FF'' = Inr False"
    by simp
  have lens: "7 \<le> length unparsable_address_fields"
      "8 \<le> length (unparsable_address_fields ! 0)"
    by (simp_all add: unparsable_address_fields_def)
  have row_err: "snd (ParseInt (take 2
      (ReplaceAll (unparsable_address_fields ! 0) (CHR '':'') (CHR ''-''))) 16 32) \<noteq> None"
    by code_simp
  have run: "clientOfRecord UTC Map.empty Map.empty unparsable_address_fields
        = Inr (Some unparsable_address_client)"
    by code_simp
  from T lens row_err obtain c where
    "clientOfRecord UTC Map.empty Map.empty unparsable_address_fields = Inr (Some c)"
    and "Organization c = TrimSpace (lookup Map.empty (take 8 (MAC c)))"
    by blast
  with run have org: "Organization unparsable_address_client = []"
    by (simp add: lookup_def TrimSpace_Nil)
  from T hex bit have loc_main: "isLocalMAC_main ''AA-BB-CC-DD-EE-FF'' = Inr True"
    by simp
  from T err have exit_main: "isLocalMAC_main ''ZZ-BB-CC-DD-EE-FF'' = Inl Exited"
    by simp
  from hex loc bit err glob lens run org loc_main exit_main show ?thesis by simp
qed

text \<open>
  The claim as written fails in its last sentence: the first two characters of the
  address below do not parse, and the row is not skipped but returned as a client.
\<close>

theorem unparsable_address_kept_counterexample:
  "snd (ParseInt ''ZZ'' 16 32) = Some ErrSyntax
   \<and> getClientsData UTC Map.empty Map.empty
        ''ZZ:BB:CC:DD:EE:FF, 2024-01-01 10:00:00, 2024-01-01 10:05:00, -40, 12, (not associated), ''
      = Inr [\<lparr> MAC = ''ZZ-BB-CC-DD-EE-FF'', FirstSeen = 63839700000000000000,
               LastSeen = 63839700300000000000, Power = - 40, Packets = 12,
               BSSID = ''(not associated)'', Probes = [], Organization = [] \<rparr>]"
  by code_simp

subsection \<open>Addresses in the records\<close>

lemma map_filter_all:
  "\<forall>x \<in> set xs. \<exists>y. f x = Some y \<Longrightarrow> List.map_filter f xs = map (\<lambda>x. the (f x)) xs"
  by (induction xs) (auto simp: List.map_filter_simps)

text \<open>
  With the header line present, at least 14 columns in every row after the first of the
  access-point section, and at least 7 columns and an address of at least 8 bytes in
  every row of the client section, nothing panics and every such row gives its record.
\<close>

lemma parse_well_formed:
  assumes "sublist marker s"
    and "\<forall>(row, err) \<in> set (tl (ReadRecords (Split s marker ! 0))). 14 \<le> length row"
    and "\<forall>(row, err) \<in> set (ReadRecords (Split s marker ! 1)).
            7 \<le> length row \<and> 8 \<le> length (row ! 0)"
  shows "parseAirodumpCsv local ouidb ciddb (Some s) =
     Inr (map (\<lambda>(row, err). the (apOfRecord local row)) (tl (ReadRecords (Split s marker ! 0))),
          map (\<lambda>(row, err). the (clientResult (clientOfRecord local ouidb ciddb row)))
            (ReadRecords (Split s marker ! 1)))"
proof -
  let ?aprows = "tl (ReadRecords (Split s marker ! 0))"
  let ?clrows = "ReadRecords (Split s marker ! 1)"
  from assms(1) have two: "\<not> length (Split s marker) < 2"
    using Split_present [OF marker_not_Nil, of s] by simp
  have "\<forall>x \<in> set ?aprows. \<exists>y. (case x of (row, err) \<Rightarrow> apOfRecord local row) = Some y"
    using assms(2) by (auto simp: apOfRecord_Some_iff)
  then have aps: "getAPData local (Split s marker ! 0)
      = map (\<lambda>x. the (case x of (row, err) \<Rightarrow> apOfRecord local row)) ?aprows"
    unfolding getAPData_eq by (rule map_filter_all)
  have some: "\<forall>x \<in> set ?clrows.
      \<exists>y. (case x of (row, err) \<Rightarrow> clientResult (clientOfRecord local ouidb ciddb row)) = Some y"
  proof
    fix x assume x: "x \<in> set ?clrows"
    obtain row e where xe: "x = (row, e)" by (cases x)
    with x assms(3) have "7 \<le> length row" "8 \<le> length (row ! 0)" by auto
    then obtain c where "clientOfRecord local ouidb ciddb row = Inr (Some c)"
      using clientOfRecord_Some by blast
    then show "\<exists>y. (case x of (row, err) \<Rightarrow>
        clientResult (clientOfRecord local ouidb ciddb row)) = Some y"
      by (simp add: xe clientResult_def)
  qed
  have "\<forall>(row, err) \<in> set ?clrows. \<exists>oc. clientOfRecord local ouidb ciddb row = Inr oc"
    using assms(3) clientOfRecord_Some by blast
  then obtain clients where run: "getClientsData_loop local ouidb ciddb ?clrows = Inr clients"
    using getClientsData_loop_no_panic by blast
  from getClientsData_loop_eq [OF run] map_filter_all [OF some]
  have "clients = map (\<lambda>x. the (case x of (row, err) \<Rightarrow>
      clientResult (clientOfRecord local ouidb ciddb row))) ?clrows"
    by simp
  with run have cl: "getClientsData local ouidb ciddb (Split s marker ! 1)
      = Inr (map (\<lambda>x. the (case x of (row, err) \<Rightarrow>
          clientResult (clientOfRecord local ouidb ciddb row))) ?clrows)"
    by (simp add: getClientsData_def)
  from two aps cl show ?thesis
    by (auto simp: parseAirodumpCsv_def Let_def split: prod.splits)
qed

lemma scenario_ap_rows:
  "tl (ReadRecords (Split scenario_dump marker ! 0)) = [(scenario_ap_fields, None)]"
  by code_simp

lemma scenario_client_rows:
  "ReadRecords (Split scenario_dump marker ! 1) = [(scenario_client_fields, None)]"
  by code_simp

lemma scenario_present: "sublist marker scenario_dump"
  by code_simp

lemma scenario_run:
  "parseAirodumpCsv UTC Map.empty Map.empty (Some scenario_dump)
     = Inr ([scenario_ap], [scenario_client])"
  by code_simp

lemma scenario_client_values:
  "fst (Atoi (TrimSpace (scenario_client_fields ! 3))) = - 40"
  "fst (Atoi (TrimSpace (scenario_client_fields ! 4))) = 12"
  by code_simp+

lemma scenario_sections_run:
  "getAPData UTC (Split scenario_dump marker ! 0) = [scenario_ap]"
  "getClientsData UTC Map.empty Map.empty (Split scenario_dump marker ! 1) = Inr [scenario_client]"
  by code_simp+

lemma ap_addresses:
  "map AccessPoint.MAC (List.map_filter (\<lambda>(row, err). apOfRecord local row) rs)
     = map (\<lambda>(row, err). ReplaceAll (row ! 0) (CHR '':'') (CHR ''-''))
         (filter (\<lambda>(row, err). 14 \<le> length row) rs)"
proof (induction rs)
  case Nil
  show ?case by (simp add: List.map_filter_simps)
next
  case (Cons r rs)
  obtain row err where r: "r = (row, err)" by (cases r)
  show ?case
  proof (cases "apOfRecord local row")
    case None
    with Cons.IH r show ?thesis
      using apOfRecord_None_iff [of local row] by (simp add: List.map_filter_simps)
  next
    case (Some ap)
    with Cons.IH r apOfRecord_fields [OF Some] show ?thesis
      using apOfRecord_None_iff [of local row] by (simp add: List.map_filter_simps)
  qed
qed

lemma client_addresses:
  "getClientsData_loop local ouidb ciddb rs = Inr clients \<Longrightarrow>
   map MAC clients
     = map (\<lambda>(row, err). ReplaceAll (row ! 0) (CHR '':'') (CHR ''-''))
         (filter (\<lambda>(row, err). 7 \<le> length row) rs)"
proof (induction rs arbitrary: clients)
  case Nil
  then show ?case by simp
next
  case (Cons r rs)
  obtain row err where r: "r = (row, err)" by (cases r)
  show ?case
  proof (cases "clientOfRecord local ouidb ciddb row")
    case (Inl p)
    with Cons.prems r show ?thesis by simp
  next
    case (Inr oc)
    show ?thesis
    proof (cases oc)
      case None
      with Inr Cons.prems r have "getClientsData_loop local ouidb ciddb rs = Inr clients"
        by simp
      from Cons.IH [OF this] Inr None r show ?thesis
        using clientOfRecord_None_iff [of local ouidb ciddb row] by simp
    next
      case (Some c')
      with Inr Cons.prems r obtain cs where
        cs: "getClientsData_loop local ouidb ciddb rs = Inr cs" "clients = c' # cs"
        by (auto split: sum.splits)
      from Inr Some have c': "clientOfRecord local ouidb ciddb row = Inr (Some c')" by simp
      from Cons.IH [OF cs(1)] cs(2) r clientOfRecord_MAC [OF c'] show ?thesis
        using clientOfRecord_None_iff [of local ouidb ciddb row] c' by simp
    qed
  qed
qed

text \<open>
  Claim C8, as the code has it.  In every access point and every client returned, the
  address is the first field of its row with each colon replaced by a hyphen and every
  other byte unchanged: this holds for the rows that the reader delivers from any text,
  and, for a section made of plain fields, for the rows of the text (where the reader
  drops the white space before a field).  So \<^verbatim>\<open>aa:bb:cc:dd:ee:ff\<close> becomes
  \<^verbatim>\<open>aa-bb-cc-dd-ee-ff\<close>, and the case of the letters is kept: in the end-to-end scenario
  the row beginning \<^verbatim>\<open>AA:BB:CC:DD:EE:FF\<close> yields one client whose address is
  \<^verbatim>\<open>AA-BB-CC-DD-EE-FF\<close>, with power -40, packets 12 and BSSID \<^verbatim>\<open>(not associated)\<close>.
\<close>

theorem addresses_hyphenated_case_kept:
  "map AccessPoint.MAC (getAPData local data)
     = map (\<lambda>(row, err). map (\<lambda>ch. if ch = CHR '':'' then CHR ''-'' else ch) (row ! 0))
         (filter (\<lambda>(row, err). 14 \<le> length row) (tl (ReadRecords data)))
   \<and> (getClientsData local ouidb ciddb data = Inr clients \<longrightarrow>
        map MAC clients
          = map (\<lambda>(row, err). map (\<lambda>ch. if ch = CHR '':'' then CHR ''-'' else ch) (row ! 0))
              (filter (\<lambda>(row, err). 7 \<le> length row) (ReadRecords data)))
   \<and> (plainRows rows \<longrightarrow>
        map AccessPoint.MAC (getAPData local (csvLines rows))
          = map (\<lambda>fs. map (\<lambda>ch. if ch = CHR '':'' then CHR ''-'' else ch)
                         (TrimLeftSpace (fs ! 0)))
              (filter (\<lambda>fs. 14 \<le> length fs) (tl (nonBlank rows))))
   \<and> (plainRows rows \<and> getClientsData local ouidb ciddb (csvLines rows) = Inr cs \<longrightarrow>
        map MAC cs
          = map (\<lambda>fs. map (\<lambda>ch. if ch = CHR '':'' then CHR ''-'' else ch)
                         (TrimLeftSpace (fs ! 0)))
              (filter (\<lambda>fs. 7 \<le> length fs) rows))
   \<and> (\<exists>c. getClientsData local ouidb ciddb (csvLines lower_case_client_rows) = Inr [c]
        \<and> MAC c = ''aa-bb-cc-dd-ee-ff'')
   \<and> (\<exists>ap' c'. parseAirodumpCsv local ouidb ciddb (Some scenario_dump) = Inr ([ap'], [c'])
        \<and> MAC c' = ''AA-BB-CC-DD-EE-FF'' \<and> Power c' = - 40 \<and> Packets c' = 12
        \<and> BSSID c' = ''(not associated)'')"
proof (intro conjI impI)
  show "map AccessPoint.MAC (getAPData local data)
     = map (\<lambda>(row, err). map (\<lambda>ch. if ch = CHR '':'' then CHR ''-'' else ch) (row ! 0))
         (filter (\<lambda>(row, err). 14 \<le> length row) (tl (ReadRecords data)))"
    using ap_addresses [of local "tl (ReadRecords data)"]
    by (simp add: getAPData_eq ReplaceAll_def)
next
  assume "getClientsData local ouidb ciddb data = Inr clients"
  then have "getClientsData_loop local ouidb ciddb (ReadRecords data) = Inr clients"
    by (simp add: getClientsData_def)
  from client_addresses [OF this]
  show "map MAC clients
          = map (\<lambda>(row, err). map (\<lambda>ch. if ch = CHR '':'' then CHR ''-'' else ch) (row ! 0))
              (filter (\<lambda>(row, err). 7 \<le> length row) (ReadRecords data))"
    by (simp add: ReplaceAll_def)
next
  assume p: "plainRows rows"
  show "map AccessPoint.MAC (getAPData local (csvLines rows))
          = map (\<lambda>fs. map (\<lambda>ch. if ch = CHR '':'' then CHR ''-'' else ch)
                         (TrimLeftSpace (fs ! 0)))
              (filter (\<lambda>fs. 14 \<le> length fs) (tl (nonBlank rows)))"
    using aps_of_rows [of local "tl (nonBlank rows)", THEN conjunct1]
    by (simp add: getAPData_csvLines [OF p] ReplaceAll_def)
next
  assume a: "plainRows rows \<and> getClientsData local ouidb ciddb (csvLines rows) = Inr cs"
  have "\<forall>fs \<in> set rows. 7 \<le> length fs \<longrightarrow> 8 \<le> length (TrimLeftSpace (fs ! 0))"
  proof (rule ccontr)
    assume "\<not> (\<forall>fs \<in> set rows. 7 \<le> length fs \<longrightarrow> 8 \<le> length (TrimLeftSpace (fs ! 0)))"
    then have "\<exists>fs \<in> set rows. 7 \<le> length fs \<and> length (TrimLeftSpace (fs ! 0)) < 8"
      by (auto simp: not_le)
    with a have "getClientsData local ouidb ciddb (csvLines rows) = Inl SliceOutOfRange"
      by (intro getClientsData_csvLines_panic) simp_all
    with a show False by simp
  qed
  from getClientsData_csvLines_ok [OF conjunct1 [OF a] this, of local ouidb ciddb] a
  show "map MAC cs
          = map (\<lambda>fs. map (\<lambda>ch. if ch = CHR '':'' then CHR ''-'' else ch)
                         (TrimLeftSpace (fs ! 0)))
              (filter (\<lambda>fs. 7 \<le> length fs) rows)"
    by (auto simp: ReplaceAll_def)
next
  have p: "plainRows lower_case_client_rows"
    by code_simp
  have l: "\<forall>fs \<in> set lower_case_client_rows. 7 \<le> length fs \<longrightarrow> 8 \<le> length (TrimLeftSpace (fs ! 0))"
    by code_simp
  have v: "map (\<lambda>fs. ReplaceAll (TrimLeftSpace (fs ! 0)) (CHR '':'') (CHR ''-''))
         (filter (\<lambda>fs. 7 \<le> length fs) lower_case_client_rows) = [''aa-bb-cc-dd-ee-ff'']"
    by code_simp
  from getClientsData_csvLines_ok [OF p l, of local ouidb ciddb] obtain cs where
    "getClientsData local ouidb ciddb (csvLines lower_case_client_rows) = Inr cs"
    "map MAC cs = [''aa-bb-cc-dd-ee-ff'']"
    unfolding v by auto
  then show "\<exists>c. getClientsData local ouidb ciddb (csvLines lower_case_client_rows) = Inr [c]
        \<and> MAC c = ''aa-bb-cc-dd-ee-ff''"
    by (auto simp: map_eq_Cons_conv)
next
  have lens: "14 \<le> length scenario_ap_fields" "7 \<le> length scenario_client_fields"
      "8 \<le> length (scenario_client_fields ! 0)"
    by (simp_all add: scenario_ap_fields_def scenario_client_fields_def)
  have h2: "\<forall>(row, err) \<in> set (tl (ReadRecords (Split scenario_dump marker ! 0))). 14 \<le> length row"
    unfolding scenario_ap_rows using lens by simp
  have h3: "\<forall>(row, err) \<in> set (ReadRecords (Split scenario_dump marker ! 1)).
            7 \<le> length row \<and> 8 \<le> length (row ! 0)"
    unfolding scenario_client_rows using lens by simp
  from lens obtain c' where c': "clientOfRecord local ouidb ciddb scenario_client_fields = Inr (Some c')"
    using clientOfRecord_Some by blast
  have run: "parseAirodumpCsv local ouidb ciddb (Some scenario_dump)
      = Inr ([the (apOfRecord local scenario_ap_fields)], [c'])"
    unfolding parse_well_formed [OF scenario_present h2 h3] scenario_ap_rows scenario_client_rows
    by (simp add: c' clientResult_def)
  have "MAC c' = ''AA-BB-CC-DD-EE-FF''"
    unfolding clientOfRecord_MAC [OF c']
    by (simp add: scenario_client_fields_def ReplaceAll_def)
  moreover have "Power c' = - 40" "Packets c' = 12"
    using clientOfRecord_fields [OF c'] by (simp_all add: scenario_client_values)
  moreover have "BSSID c' = ''(not associated)''"
    using clientOfRecord_fields [OF c'] by (simp add: scenario_client_fields_def)
  ultimately show "\<exists>ap' c'. parseAirodumpCsv local ouidb ciddb (Some scenario_dump) = Inr ([ap'], [c'])
        \<and> MAC c' = ''AA-BB-CC-DD-EE-FF'' \<and> Power c' = - 40 \<and> Packets c' = 12
        \<and> BSSID c' = ''(not associated)''"
    using run by blast
qed

theorem addresses_hyphenated_case_kept_witness:
  "plainRows dump_ap_rows
   \<and> map AccessPoint.MAC (getAPData UTC (csvLines dump_ap_rows))
       = [''00-11-22-33-44-55'', ''66-77-88-99-AA-BB'', ''CC-DD-EE-FF-00-11'']
   \<and> plainRows dump_client_rows
   \<and> (\<exists>cs. getClientsData UTC Map.empty Map.empty (csvLines dump_client_rows) = Inr cs
        \<and> map MAC cs = [''AA-BB-CC-DD-EE-FF'', ''02-00-00-00-00-01'', ''00-1A-2B-00-00-01''])
   \<and> getAPData UTC (Split scenario_dump marker ! 0) = [scenario_ap]
   \<and> tl (ReadRecords (Split scenario_dump marker ! 0)) = [(scenario_ap_fields, None)]
   \<and> scenario_ap_fields ! 0 = ''00:11:22:33:44:55''
   \<and> AccessPoint.MAC scenario_ap = ''00-11-22-33-44-55''
   \<and> parseAirodumpCsv UTC Map.empty Map.empty (Some scenario_dump)
        = Inr ([scenario_ap], [scenario_client])
   \<and> MAC scenario_client = ''AA-BB-CC-DD-EE-FF''
   \<and> Power scenario_client = - 40
   \<and> Packets scenario_client = 12
   \<and> BSSID scenario_client = ''(not associated)''"
proof -
  have p: "plainRows dump_ap_rows" "plainRows dump_client_rows"
    by code_simp+
  have l: "\<forall>fs \<in> set dump_client_rows. 7 \<le> length fs \<longrightarrow> 8 \<le> length (TrimLeftSpace (fs ! 0))"
    by code_simp
  have v: "map (\<lambda>fs. map (\<lambda>ch. if ch = CHR '':'' then CHR ''-'' else ch) (TrimLeftSpace (fs ! 0)))
            (filter (\<lambda>fs. 14 \<le> length fs) (tl (nonBlank dump_ap_rows)))
       = [''00-11-22-33-44-55'', ''66-77-88-99-AA-BB'', ''CC-DD-EE-FF-00-11'']"
    "map (\<lambda>fs. map (\<lambda>ch. if ch = CHR '':'' then CHR ''-'' else ch) (TrimLeftSpace (fs ! 0)))
            (filter (\<lambda>fs. 7 \<le> length fs) dump_client_rows)
       = [''AA-BB-CC-DD-EE-FF'', ''02-00-00-00-00-01'', ''00-1A-2B-00-00-01'']"
    by code_simp+
  note T = addresses_hyphenated_case_kept
  from T [of UTC _ _ _ _ dump_ap_rows] p(1)
  have 1: "map AccessPoint.MAC (getAPData UTC (csvLines dump_ap_rows))
       = [''00-11-22-33-44-55'', ''66-77-88-99-AA-BB'', ''CC-DD-EE-FF-00-11'']"
    unfolding v by blast
  from getClientsData_csvLines_ok [OF p(2) l, of UTC Map.empty Map.empty] obtain cs where
    cs: "getClientsData UTC Map.empty Map.empty (csvLines dump_client_rows) = Inr cs"
    by blast
  from T [of UTC _ Map.empty Map.empty _ dump_client_rows cs] p(2) cs
  have "map MAC cs = [''AA-BB-CC-DD-EE-FF'', ''02-00-00-00-00-01'', ''00-1A-2B-00-00-01'']"
    unfolding v by blast
  with cs have 2: "\<exists>cs. getClientsData UTC Map.empty Map.empty (csvLines dump_client_rows) = Inr cs
        \<and> map MAC cs = [''AA-BB-CC-DD-EE-FF'', ''02-00-00-00-00-01'', ''00-1A-2B-00-00-01'']"
    by (intro exI [of _ cs] conjI)
  have f: "scenario_ap_fields ! 0 = ''00:11:22:33:44:55''"
    by (simp add: scenario_ap_fields_def)
  from T [of UTC "Split scenario_dump marker ! 0", THEN conjunct1]
  have 3: "AccessPoint.MAC scenario_ap = ''00-11-22-33-44-55''"
    unfolding scenario_sections_run scenario_ap_rows
    by (simp add: scenario_ap_fields_def)
  from T [of UTC _ Map.empty Map.empty] obtain ap' c' where
    "parseAirodumpCsv UTC Map.empty Map.empty (Some scenario_dump) = Inr ([ap'], [c'])"
    and w: "MAC c' = ''AA-BB-CC-DD-EE-FF''" "Power c' = - 40" "Packets c' = 12"
      "BSSID c' = ''(not associated)''"
    by blast
  with scenario_run have "c' = scenario_client" by simp
  with w p 1 2 3 f scenario_sections_run(1) scenario_ap_rows scenario_run show ?thesis by simp
qed

text \<open>
  The claim as written fails in the scenario: the address of the client is not in lower
  case.
\<close>

theorem address_case_counterexample:
  "parseAirodumpCsv UTC Map.empty Map.empty (Some scenario_dump)
     = Inr ([scenario_ap], [scenario_client])
   \<and> MAC scenario_client = ''AA-BB-CC-DD-EE-FF''
   \<and> MAC scenario_client \<noteq> ''aa-bb-cc-dd-ee-ff''
   \<and> getClientsData UTC Map.empty Map.empty
        ''AA:BB:CC:DD:EE:FF, 2024-01-01 10:00:00, 2024-01-01 10:05:00, -40, 12, (not associated), ''
      = Inr [\<lparr> MAC = ''AA-BB-CC-DD-EE-FF'', FirstSeen = 63839700000000000000,
               LastSeen = 63839700300000000000, Power = - 40, Packets = 12,
               BSSID = ''(not associated)'', Probes = [], Organization = ''LOCAL'' \<rparr>]"
  by code_simp

end
